theory Spec2Isabelle
  imports Complex_Main "HOL-Library.AList" "HOL-Library.Char_ord" "HOL-Library.List_Lexorder"
begin

section \<open>The log processor: data model\<close>

text \<open>
  The development follows \<^verbatim>\<open>main processsor.py\<close>, class \<^verbatim>\<open>GenericLogProcessor\<close>.
  Python dictionaries are association lists written with \<^const>\<open>AList.update\<close>
  (assignment to a key replaces the value in place or appends the key) and read with
  \<^const>\<open>map_of\<close>. Exceptions are values of \<open>py_error\<close>; a function that can raise
  returns \<open>py_error + 'a\<close>.
\<close>

datatype py_error = KeyError | IndexError | ValueError | TypeError | AttributeError | ReError

text \<open>
  A value stored in an event dictionary: the parsed \<^verbatim>\<open>datetime\<close> (microseconds on
  the time line of naive date-times) or a \<^verbatim>\<open>str\<close>.
\<close>

datatype evalue = ETime int | EStr string

type_synonym event = "(string \<times> evalue) list"

text \<open>What a stage of the in-progress cycle holds: \<^verbatim>\<open>None\<close>, one event, or a list of events.\<close>

datatype slot = SNone | SEvent event | SList "event list"

type_synonym cycle = "(string \<times> slot) list"

record config =
  EVENT_SEQUENCE :: "string list"
  PATTERN_CONFIG :: "(string \<times> (string \<times> string) list) list"
  TIMESTAMP_FORMATS :: "string list"

text \<open>The local variables of the loop of \<^verbatim>\<open>analyze_events\<close>.\<close>

record mstate =
  state :: nat
  cycle :: cycle
  source_files :: "evalue set"

section \<open>The cycle state machine (\<^verbatim>\<open>analyze_events\<close>)\<close>

text \<open>\<^verbatim>\<open>seq.index(x)\<close>: the first position of \<open>x\<close>, or \<^verbatim>\<open>ValueError\<close> (here \<open>None\<close>).\<close>

fun list_index :: "'a list \<Rightarrow> 'a \<Rightarrow> nat option" where
  "list_index [] x = None"
| "list_index (y # ys) x =
     (if y = x then Some 0 else map_option Suc (list_index ys x))"

text \<open>A \<^verbatim>\<open>datetime\<close> is equal to no string, so it is never found in the sequence.\<close>

fun seq_index :: "string list \<Rightarrow> evalue \<Rightarrow> nat option" where
  "seq_index seq (EStr s) = list_index seq s"
| "seq_index seq (ETime t) = None"

text \<open>
  \<^verbatim>\<open>cycle = {evt: None for evt in seq}; cycle[seq[-1]] = []\<close>, for a non-empty sequence.
\<close>

definition new_cycle :: "string list \<Rightarrow> cycle" where
  "new_cycle seq =
     AList.update (last seq) (SList []) (fold (\<lambda>evt. AList.update evt SNone) seq [])"

text \<open>
  \<^verbatim>\<open>cycle[key].append(ev)\<close>: \<^verbatim>\<open>KeyError\<close> on a missing key, \<^verbatim>\<open>AttributeError\<close> when the
  value is \<^verbatim>\<open>None\<close> or a dictionary.
\<close>

definition cycle_append :: "cycle \<Rightarrow> string \<Rightarrow> event \<Rightarrow> py_error + cycle" where
  "cycle_append c key ev =
     (case map_of c key of
        None \<Rightarrow> Inl KeyError
      | Some (SList evs) \<Rightarrow> Inr (AList.update key (SList (evs @ [ev])) c)
      | Some _ \<Rightarrow> Inl AttributeError)"

text \<open>
  One iteration of the loop over the events. The result is the new local state and, when
  the iteration calls \<^verbatim>\<open>finalize_cycle\<close>, the cycle and source files it passes.
  The event type is a string in every branch that uses it as a key, because only strings
  are found by \<^const>\<open>seq_index\<close>.
\<close>

definition sm_step ::
  "string list \<Rightarrow> event \<Rightarrow> mstate \<Rightarrow> py_error + (mstate \<times> (cycle \<times> evalue set) option)" where
  "sm_step seq ev m =
     (case map_of ev ''type'' of
        None \<Rightarrow> Inl KeyError
      | Some ty \<Rightarrow>
         (case seq_index seq ty of
            None \<Rightarrow> Inr (m, None)
          | Some idx \<Rightarrow>
             (case ty of
                ETime t \<Rightarrow> Inr (m, None)
              | EStr key \<Rightarrow>
                 if idx = 0 then
                   (case map_of ev ''file'' of
                      None \<Rightarrow> Inl KeyError
                    | Some f \<Rightarrow>
                       Inr (\<lparr>state = 1,
                             cycle = AList.update key (SEvent ev) (new_cycle seq),
                             source_files = {f}\<rparr>,
                            if state m = length seq
                            then Some (cycle m, source_files m) else None))
                 else if idx = state m then
                   (case (if idx = length seq - 1
                          then cycle_append (cycle m) key ev
                          else Inr (AList.update key (SEvent ev) (cycle m))) of
                      Inl e \<Rightarrow> Inl e
                    | Inr c \<Rightarrow>
                       (case map_of ev ''file'' of
                          None \<Rightarrow> Inl KeyError
                        | Some f \<Rightarrow>
                           Inr (\<lparr>state = state m + 1, cycle = c,
                                 source_files = insert f (source_files m)\<rparr>, None)))
                 else Inr (m\<lparr>state := 0\<rparr>, None))))"

text \<open>
  The calls of \<^verbatim>\<open>finalize_cycle\<close> made while the loop runs over the events, in order,
  with the local state at the end of the loop.
\<close>

fun loop_finalized ::
  "string list \<Rightarrow> event list \<Rightarrow> mstate \<Rightarrow> py_error + (mstate \<times> (cycle \<times> evalue set) list)" where
  "loop_finalized seq [] m = Inr (m, [])"
| "loop_finalized seq (ev # evs) m =
     (case sm_step seq ev m of
        Inl e \<Rightarrow> Inl e
      | Inr (m', out) \<Rightarrow>
         (case loop_finalized seq evs m' of
            Inl e \<Rightarrow> Inl e
          | Inr (m'', outs) \<Rightarrow>
             Inr (m'', (case out of None \<Rightarrow> [] | Some c \<Rightarrow> [c]) @ outs)))"

text \<open>
  \<^verbatim>\<open>self.events.sort(key=lambda e: e['time'])\<close>: the keys are computed first
  (\<^verbatim>\<open>KeyError\<close> for an event without the key), the sort is stable, and comparing a
  \<^verbatim>\<open>datetime\<close> with a \<^verbatim>\<open>str\<close> raises \<^verbatim>\<open>TypeError\<close>. A list of fewer than two events is
  not compared at all.
\<close>

fun time_of :: "evalue \<Rightarrow> int option" where
  "time_of (ETime t) = Some t"
| "time_of (EStr s) = None"

fun str_of :: "evalue \<Rightarrow> string option" where
  "str_of (EStr s) = Some s"
| "str_of (ETime t) = None"

definition time_key :: "event \<Rightarrow> int" where
  "time_key ev = the (time_of (the (map_of ev ''time'')))"

definition str_key :: "event \<Rightarrow> string" where
  "str_key ev = the (str_of (the (map_of ev ''time'')))"

definition has_time :: "event \<Rightarrow> bool" where
  "has_time ev = (case map_of ev ''time'' of Some (ETime t) \<Rightarrow> True | _ \<Rightarrow> False)"

definition has_str_time :: "event \<Rightarrow> bool" where
  "has_str_time ev = (case map_of ev ''time'' of Some (EStr s) \<Rightarrow> True | _ \<Rightarrow> False)"

definition sort_events :: "event list \<Rightarrow> py_error + event list" where
  "sort_events evs =
     (if list_ex (\<lambda>ev. map_of ev ''time'' = None) evs then Inl KeyError
      else if length evs < 2 then Inr evs
      else if list_all has_time evs then Inr (sort_key time_key evs)
      else if list_all has_str_time evs then Inr (sort_key str_key evs)
      else Inl TypeError)"

text \<open>The local state before the loop: \<^verbatim>\<open>seq[-1]\<close> raises on an empty sequence.\<close>

definition init_mstate :: "string list \<Rightarrow> py_error + mstate" where
  "init_mstate seq =
     (if seq = [] then Inl IndexError
      else Inr \<lparr>state = 0, cycle = new_cycle seq, source_files = {}\<rparr>)"

text \<open>
  All calls of \<^verbatim>\<open>finalize_cycle\<close> made by \<^verbatim>\<open>analyze_events\<close> on the collected events:
  none when there are no events, otherwise those of the loop over the sorted events
  followed by the call for a cycle completed at the end of the input.
\<close>

definition finalized_cycles ::
  "string list \<Rightarrow> event list \<Rightarrow> py_error + (cycle \<times> evalue set) list" where
  "finalized_cycles seq evs =
     (if evs = [] then Inr []
      else case sort_events evs of
        Inl e \<Rightarrow> Inl e
      | Inr sorted_evs \<Rightarrow>
         (case init_mstate seq of
            Inl e \<Rightarrow> Inl e
          | Inr m0 \<Rightarrow>
             (case loop_finalized seq sorted_evs m0 of
                Inl e \<Rightarrow> Inl e
              | Inr (m, outs) \<Rightarrow>
                 Inr (outs @ (if state m = length seq
                              then [(cycle m, source_files m)] else [])))))"

text \<open>
  The same for the loop started in any local state: the calls made while the loop runs
  and the call after the loop.
\<close>

definition finalized_from ::
  "string list \<Rightarrow> event list \<Rightarrow> mstate \<Rightarrow> py_error + (cycle \<times> evalue set) list" where
  "finalized_from seq evs m0 =
     (case loop_finalized seq evs m0 of
        Inl e \<Rightarrow> Inl e
      | Inr (m, outs) \<Rightarrow>
         Inr (outs @ (if state m = length seq then [(cycle m, source_files m)] else [])))"

text \<open>
  What the loop maintains about the slot of the last stage, for a sequence of two or more
  stages: in the terminal state it holds a list of exactly one event, and while a cycle is
  in progress towards a last stage that can be reached it holds the empty list.
\<close>

definition timing_inv :: "string list \<Rightarrow> mstate \<Rightarrow> bool" where
  "timing_inv seq m =
     ((state m = length seq \<longrightarrow> (\<exists>e. map_of (cycle m) (last seq) = Some (SList [e])))
      \<and> (0 < state m \<and> state m < length seq
           \<and> list_index seq (last seq) = Some (length seq - 1)
         \<longrightarrow> map_of (cycle m) (last seq) = Some (SList [])))"

section \<open>Library functions\<close>

text \<open>
  The functions of the Python library the processor calls are parameters of the model:
  regular expressions, date-time parsing and formatting, and floating-point arithmetic
  over a type \<open>'f\<close> of floats.
  \<^item> \<open>re_search_group1 pat line\<close> is \<^verbatim>\<open>m = re.search(pat, line)\<close> followed, on a match, by
    \<^verbatim>\<open>m.group(1).strip()\<close>: \<open>Inr None\<close> when there is no match, \<open>Inl\<close> when the
    pattern does not compile or has no first group to strip;
  \<^item> \<open>strptime s fmt\<close> is \<^verbatim>\<open>datetime.strptime(s, fmt)\<close>: \<open>Inl ValueError\<close> when the text
    does not match the format or the format has a bad directive, \<open>Inl\<close> of another error
    when the call raises that one (\<^verbatim>\<open>re.error\<close> for a format that repeats a directive);
  \<^item> \<open>strftime_start t\<close> is \<^verbatim>\<open>t.strftime("%y/%m/%d %H:%M:%S")\<close>;
  \<^item> \<open>float_of_str s\<close> is \<^verbatim>\<open>float(s)\<close> on a string, \<open>None\<close> for \<^verbatim>\<open>ValueError\<close>;
    \<open>float_of_int\<close> is \<^verbatim>\<open>float\<close> on an integer; \<open>fsum\<close> is \<^verbatim>\<open>sum\<close>, \<open>fdiv\<close> is \<^verbatim>\<open>/\<close>,
    \<open>fround x n\<close> is \<^verbatim>\<open>round(x, n)\<close>, \<open>fisnan x\<close> is \<^verbatim>\<open>x != x\<close>, \<open>fnonzero x\<close> is
    the truth value of \<open>x\<close>, and \<open>total_seconds d\<close> is \<^verbatim>\<open>timedelta.total_seconds()\<close> of a
    difference of \<open>d\<close> microseconds.
\<close>

record 'f pylib =
  re_search_group1 :: "string \<Rightarrow> string \<Rightarrow> py_error + string option"
  strptime :: "string \<Rightarrow> string \<Rightarrow> py_error + int"
  strftime_start :: "int \<Rightarrow> string"
  float_of_str :: "string \<Rightarrow> 'f option"
  float_of_int :: "int \<Rightarrow> 'f"
  fsum :: "'f list \<Rightarrow> 'f"
  fdiv :: "'f \<Rightarrow> 'f \<Rightarrow> 'f"
  fround :: "'f \<Rightarrow> nat \<Rightarrow> 'f"
  fisnan :: "'f \<Rightarrow> bool"
  fnonzero :: "'f \<Rightarrow> bool"
  total_seconds :: "int \<Rightarrow> 'f"

section \<open>The cycle aggregator (\<^verbatim>\<open>build_record\<close>, \<^verbatim>\<open>validate_record\<close>, \<^verbatim>\<open>finalize_cycle\<close>)\<close>

text \<open>A value of an output record.\<close>

datatype 'f rvalue = RNone | RStr string | RInt int | RFloat 'f | RTime int

type_synonym 'f csv_record = "(string \<times> 'f rvalue) list"

record metrics =
  files_processed :: nat
  events_parsed :: nat
  cycles_completed :: nat
  cycle_errors :: nat

text \<open>The fields of the processor object that the core reads and writes.\<close>

record 'f processor =
  events :: "event list"
  results :: "'f csv_record list"
  metrics :: metrics

fun of_evalue :: "evalue \<Rightarrow> 'f rvalue" where
  "of_evalue (ETime t) = RTime t"
| "of_evalue (EStr s) = RStr s"

fun join_str :: "string \<Rightarrow> string list \<Rightarrow> string" where
  "join_str sep [] = []"
| "join_str sep [x] = x"
| "join_str sep (x # y # ys) = x @ sep @ join_str sep (y # ys)"

text \<open>
  \<^verbatim>\<open>'+'.join(sorted(source_files))\<close>: \<^verbatim>\<open>TypeError\<close> when an element is not a string
  (from the comparison, or from \<^verbatim>\<open>join\<close>).
\<close>

definition join_files :: "evalue set \<Rightarrow> py_error + string" where
  "join_files sf =
     (if None \<in> str_of ` sf then Inl TypeError
      else Inr (join_str ''+'' (sorted_list_of_set ((\<lambda>v. the (str_of v)) ` sf))))"

text \<open>
  \<^verbatim>\<open>tech['time'].strftime(...) if tech else 'NA'\<close> for \<^verbatim>\<open>tech = cycle.get('technique')\<close>.
  A non-empty list cannot be indexed by a string; a string has no \<^verbatim>\<open>strftime\<close>.
\<close>

definition start_time :: "'f pylib \<Rightarrow> cycle \<Rightarrow> py_error + 'f rvalue" where
  "start_time L c =
     (case map_of c ''technique'' of
        None \<Rightarrow> Inr (RStr ''NA'')
      | Some SNone \<Rightarrow> Inr (RStr ''NA'')
      | Some (SEvent ev) \<Rightarrow>
         (if ev = [] then Inr (RStr ''NA'')
          else case map_of ev ''time'' of
            None \<Rightarrow> Inl KeyError
          | Some (ETime t) \<Rightarrow> Inr (RStr (strftime_start L t))
          | Some (EStr s) \<Rightarrow> Inl AttributeError)
      | Some (SList evs) \<Rightarrow> (if evs = [] then Inr (RStr ''NA'') else Inl TypeError))"

text \<open>
  The body of \<^verbatim>\<open>for stage in ['query', 'technique']\<close>: every configured field of the
  stage is copied from the stage's event, \<^verbatim>\<open>'NA'\<close> when the event lacks it.
\<close>

definition merge_stage :: "config \<Rightarrow> cycle \<Rightarrow> string \<Rightarrow> 'f csv_record \<Rightarrow> py_error + 'f csv_record" where
  "merge_stage cfg c stage r =
     (case map_of c stage of
        None \<Rightarrow> Inr r
      | Some SNone \<Rightarrow> Inr r
      | Some (SEvent ev) \<Rightarrow>
         (if ev = [] then Inr r
          else case map_of (PATTERN_CONFIG cfg) stage of
            None \<Rightarrow> Inl KeyError
          | Some pats \<Rightarrow>
             Inr (fold (\<lambda>field. AList.update field
                         (case map_of ev field of None \<Rightarrow> RStr ''NA'' | Some v \<Rightarrow> of_evalue v))
                    (map fst pats) r))
      | Some (SList evs) \<Rightarrow>
         (if evs = [] then Inr r
          else case map_of (PATTERN_CONFIG cfg) stage of
            None \<Rightarrow> Inl KeyError
          | Some pats \<Rightarrow> if pats = [] then Inr r else Inl AttributeError))"

text \<open>
  \<^verbatim>\<open>float(e.get(field, 0))\<close> inside \<^verbatim>\<open>try ... except (ValueError, TypeError): continue\<close>:
  the float of the event's string, \<^verbatim>\<open>float(0)\<close> when the event has no such field, and
  nothing when the conversion raises.
\<close>

definition field_value :: "'f pylib \<Rightarrow> string \<Rightarrow> event \<Rightarrow> 'f option" where
  "field_value L field e =
     (case map_of e field of
        None \<Rightarrow> Some (float_of_int L 0)
      | Some (EStr s) \<Rightarrow> float_of_str L s
      | Some (ETime t) \<Rightarrow> None)"

definition field_values :: "'f pylib \<Rightarrow> string \<Rightarrow> event list \<Rightarrow> 'f list" where
  "field_values L field evs = List.map_filter (field_value L field) evs"

text \<open>\<^verbatim>\<open>round(sum(values) / len(values), 2) if values else None\<close>.\<close>

definition average :: "'f pylib \<Rightarrow> 'f list \<Rightarrow> 'f rvalue" where
  "average L values =
     (if values = [] then RNone
      else RFloat (fround L (fdiv L (fsum L values) (float_of_int L (int (length values)))) 2))"

text \<open>\<^verbatim>\<open>timing_events = cycle.get(last_stage, [])\<close>: the default only for a missing key.\<close>

definition timing_events :: "cycle \<Rightarrow> string \<Rightarrow> slot" where
  "timing_events c last_stage =
     (case map_of c last_stage of None \<Rightarrow> SList [] | Some sl \<Rightarrow> sl)"

text \<open>
  The inner loop \<^verbatim>\<open>for e in timing_events\<close>: \<^verbatim>\<open>None\<close> is not iterable, and iterating a
  dictionary yields its keys, strings without a \<^verbatim>\<open>get\<close> method.
\<close>

definition slot_values :: "'f pylib \<Rightarrow> string \<Rightarrow> slot \<Rightarrow> py_error + 'f list" where
  "slot_values L field timing =
     (case timing of
        SNone \<Rightarrow> Inl TypeError
      | SEvent ev \<Rightarrow> (if ev = [] then Inr [] else Inl AttributeError)
      | SList evs \<Rightarrow> Inr (field_values L field evs))"

fun add_averages ::
  "'f pylib \<Rightarrow> slot \<Rightarrow> string list \<Rightarrow> 'f csv_record \<Rightarrow> py_error + 'f csv_record" where
  "add_averages L timing [] r = Inr r"
| "add_averages L timing (field # rest) r =
     (case slot_values L field timing of
        Inl e \<Rightarrow> Inl e
      | Inr values \<Rightarrow>
         add_averages L timing rest (AList.update (''Avg'' @ field) (average L values) r))"

text \<open>\<^verbatim>\<open>len(timing_events)\<close>.\<close>

fun slot_len :: "slot \<Rightarrow> py_error + nat" where
  "slot_len SNone = Inl TypeError"
| "slot_len (SEvent ev) = Inr (length ev)"
| "slot_len (SList evs) = Inr (length evs)"

text \<open>
  The last block of \<^verbatim>\<open>build_record\<close>: nothing is stored when \<^verbatim>\<open>timing_events\<close> is
  empty; otherwise \<^verbatim>\<open>Duration(s)\<close> is the rounded difference of the last and the first
  time stamp, and \<^verbatim>\<open>None\<close> when anything in the \<^verbatim>\<open>try\<close> block raises (a missing key, an
  index into a dictionary, a time that is a string).
\<close>

definition duration :: "'f pylib \<Rightarrow> slot \<Rightarrow> 'f rvalue option" where
  "duration L timing =
     (case timing of
        SNone \<Rightarrow> None
      | SEvent ev \<Rightarrow> (if ev = [] then None else Some RNone)
      | SList evs \<Rightarrow>
         (if evs = [] then None
          else Some (case (map_of (hd evs) ''time'', map_of (last evs) ''time'') of
                       (Some (ETime start_t), Some (ETime end_t)) \<Rightarrow>
                          RFloat (fround L (total_seconds L (end_t - start_t)) 3)
                     | _ \<Rightarrow> RNone)))"

definition build_record ::
  "'f pylib \<Rightarrow> config \<Rightarrow> cycle \<Rightarrow> evalue set \<Rightarrow> py_error + 'f csv_record" where
  "build_record L cfg c sf =
     (if EVENT_SEQUENCE cfg = [] then Inl IndexError
      else
        let last_stage = last (EVENT_SEQUENCE cfg);
            timing = timing_events c last_stage
        in case join_files sf of
          Inl e \<Rightarrow> Inl e
        | Inr joined \<Rightarrow>
        (case start_time L c of
          Inl e \<Rightarrow> Inl e
        | Inr start \<Rightarrow>
        (case merge_stage cfg c ''query'' [(''SourceFiles'', RStr joined), (''StartTime'', start)] of
          Inl e \<Rightarrow> Inl e
        | Inr r1 \<Rightarrow>
        (case merge_stage cfg c ''technique'' r1 of
          Inl e \<Rightarrow> Inl e
        | Inr r2 \<Rightarrow>
        (case map_of (PATTERN_CONFIG cfg) last_stage of
          None \<Rightarrow> Inl KeyError
        | Some pats \<Rightarrow>
        (case add_averages L timing (map fst pats) r2 of
          Inl e \<Rightarrow> Inl e
        | Inr r3 \<Rightarrow>
        (case slot_len timing of
          Inl e \<Rightarrow> Inl e
        | Inr n \<Rightarrow>
           (let r4 = AList.update ''frames'' (RInt (int n)) r3
            in Inr (case duration L timing of
                      None \<Rightarrow> r4
                    | Some d \<Rightarrow> AList.update ''Duration(s)'' d r4)))))))))"

text \<open>The truth value of \<^verbatim>\<open>rec.get(key)\<close>.\<close>

fun truthy :: "'f pylib \<Rightarrow> 'f rvalue option \<Rightarrow> bool" where
  "truthy L None = False"
| "truthy L (Some RNone) = False"
| "truthy L (Some (RStr s)) = (s \<noteq> [])"
| "truthy L (Some (RInt i)) = (i \<noteq> 0)"
| "truthy L (Some (RFloat x)) = fnonzero L x"
| "truthy L (Some (RTime t)) = True"

fun is_int :: "'f rvalue option \<Rightarrow> bool" where
  "is_int (Some (RInt i)) = True"
| "is_int _ = False"

fun is_nan :: "'f pylib \<Rightarrow> 'f rvalue \<Rightarrow> bool" where
  "is_nan L (RFloat x) = fisnan L x"
| "is_nan L _ = False"

definition validate_record :: "'f pylib \<Rightarrow> 'f csv_record \<Rightarrow> bool" where
  "validate_record L r =
     (if \<not> truthy L (map_of r ''StartTime'') \<or> \<not> is_int (map_of r ''frames'') then False
      else \<not> list_ex (is_nan L) (map snd r))"

text \<open>
  \<^verbatim>\<open>finalize_cycle\<close>: an accepted record is appended; a rejected one changes nothing; any
  exception of \<^verbatim>\<open>build_record\<close> is caught and counted.
\<close>

definition finalize_cycle ::
  "'f pylib \<Rightarrow> config \<Rightarrow> cycle \<times> evalue set \<Rightarrow> 'f processor \<Rightarrow> 'f processor" where
  "finalize_cycle L cfg cs p =
     (case build_record L cfg (fst cs) (snd cs) of
        Inl e \<Rightarrow> p\<lparr>metrics := (metrics p)\<lparr>cycle_errors := cycle_errors (metrics p) + 1\<rparr>\<rparr>
      | Inr r \<Rightarrow>
         if validate_record L r
         then p\<lparr>results := results p @ [r],
                metrics := (metrics p)\<lparr>cycles_completed := cycles_completed (metrics p) + 1\<rparr>\<rparr>
         else p)"

text \<open>
  The loop of \<^verbatim>\<open>analyze_events\<close> with the processor threaded through the calls of
  \<^verbatim>\<open>finalize_cycle\<close>, and \<^verbatim>\<open>analyze_events\<close> itself. An exception that leaves the method
  is the result \<open>Inl\<close>.
\<close>

fun run_loop ::
  "'f pylib \<Rightarrow> config \<Rightarrow> event list \<Rightarrow> mstate \<Rightarrow> 'f processor \<Rightarrow> py_error + (mstate \<times> 'f processor)" where
  "run_loop L cfg [] m p = Inr (m, p)"
| "run_loop L cfg (ev # evs) m p =
     (case sm_step (EVENT_SEQUENCE cfg) ev m of
        Inl e \<Rightarrow> Inl e
      | Inr (m', out) \<Rightarrow>
         run_loop L cfg evs m'
           (case out of None \<Rightarrow> p | Some cs \<Rightarrow> finalize_cycle L cfg cs p))"

definition analyze_events :: "'f pylib \<Rightarrow> config \<Rightarrow> 'f processor \<Rightarrow> py_error + 'f processor" where
  "analyze_events L cfg p =
     (if events p = [] then Inr p
      else case sort_events (events p) of
        Inl e \<Rightarrow> Inl e
      | Inr sorted_evs \<Rightarrow>
         (case init_mstate (EVENT_SEQUENCE cfg) of
            Inl e \<Rightarrow> Inl e
          | Inr m0 \<Rightarrow>
             (case run_loop L cfg sorted_evs m0 (p\<lparr>events := sorted_evs\<rparr>) of
                Inl e \<Rightarrow> Inl e
              | Inr (m, p') \<Rightarrow>
                 Inr (if state m = length (EVENT_SEQUENCE cfg)
                      then finalize_cycle L cfg (cycle m, source_files m) p' else p'))))"

section \<open>The time stamp parser (\<^verbatim>\<open>extract_timestamp\<close>)\<close>

text \<open>
  \<^verbatim>\<open>re.search(r"\[([^\]]+)\]", line)\<close> and its first group: the leftmost opening bracket
  that is followed by one or more characters other than a closing bracket and then by a
  closing bracket. The greedy group takes every character up to the next closing bracket,
  so the match at a position fails when that run is empty or reaches the end of the line.
\<close>

fun find_bracket :: "string \<Rightarrow> string option" where
  "find_bracket [] = None"
| "find_bracket (c # cs) =
     (if c = CHR ''['' \<and> takeWhile (\<lambda>x. x \<noteq> CHR '']'') cs \<noteq> []
         \<and> dropWhile (\<lambda>x. x \<noteq> CHR '']'') cs \<noteq> []
      then Some (takeWhile (\<lambda>x. x \<noteq> CHR '']'') cs)
      else find_bracket cs)"

text \<open>
  The loop over the formats: the first format that parses returns, \<^verbatim>\<open>except ValueError\<close>
  goes on to the next format, and any other exception leaves the loop and the function.
\<close>

fun first_parse :: "'f pylib \<Rightarrow> string \<Rightarrow> string list \<Rightarrow> py_error + int option" where
  "first_parse L ts_str [] = Inr None"
| "first_parse L ts_str (fmt # fmts) =
     (case strptime L ts_str fmt of
        Inr t \<Rightarrow> Inr (Some t)
      | Inl e \<Rightarrow> if e = ValueError then first_parse L ts_str fmts else Inl e)"

definition extract_timestamp :: "'f pylib \<Rightarrow> config \<Rightarrow> string \<Rightarrow> py_error + int option" where
  "extract_timestamp L cfg line =
     (case find_bracket line of
        None \<Rightarrow> Inr None
      | Some ts_str \<Rightarrow> first_parse L ts_str (TIMESTAMP_FORMATS cfg))"

section \<open>The event extractor (\<^verbatim>\<open>parse_line\<close>)\<close>

text \<open>
  The loop over \<^verbatim>\<open>patterns.items()\<close>: the flag \<^verbatim>\<open>matched\<close> and the event dictionary
  after all patterns of one event type were searched in the line.
\<close>

fun match_fields ::
  "'f pylib \<Rightarrow> string \<Rightarrow> (string \<times> string) list \<Rightarrow> bool \<times> event \<Rightarrow> py_error + (bool \<times> event)" where
  "match_fields L line [] acc = Inr acc"
| "match_fields L line ((field, pat) # pats) acc =
     (case re_search_group1 L pat line of
        Inl e \<Rightarrow> Inl e
      | Inr None \<Rightarrow> match_fields L line pats acc
      | Inr (Some g) \<Rightarrow>
         match_fields L line pats (True, AList.update field (EStr g) (snd acc)))"

text \<open>
  The loop over the event sequence, for a line whose time stamp is \<open>ts\<close>: the first event
  type with a match appends its event and returns.
\<close>

fun try_events ::
  "'f pylib \<Rightarrow> config \<Rightarrow> string \<Rightarrow> string \<Rightarrow> int \<Rightarrow> string list \<Rightarrow> 'f processor
   \<Rightarrow> py_error + 'f processor" where
  "try_events L cfg line filename ts [] p = Inr p"
| "try_events L cfg line filename ts (evt # evts) p =
     (case map_of (PATTERN_CONFIG cfg) evt of
        None \<Rightarrow> Inl KeyError
      | Some patterns \<Rightarrow>
         (case match_fields L line patterns
                 (False, [(''time'', ETime ts), (''file'', EStr filename), (''type'', EStr evt)]) of
            Inl e \<Rightarrow> Inl e
          | Inr (matched, event) \<Rightarrow>
             if matched
             then Inr (p\<lparr>events := events p @ [event],
                         metrics := (metrics p)\<lparr>events_parsed := events_parsed (metrics p) + 1\<rparr>\<rparr>)
             else try_events L cfg line filename ts evts p))"

definition parse_line ::
  "'f pylib \<Rightarrow> config \<Rightarrow> string \<Rightarrow> string \<Rightarrow> 'f processor \<Rightarrow> py_error + 'f processor" where
  "parse_line L cfg line filename p =
     (case extract_timestamp L cfg line of
        Inl e \<Rightarrow> Inl e
      | Inr None \<Rightarrow> Inr p
      | Inr (Some ts) \<Rightarrow> try_events L cfg line filename ts (EVENT_SEQUENCE cfg) p)"

section \<open>Notions of the specification\<close>

text \<open>
  A bracketed substring of a line, in the words of the specification: after the prefix
  \<open>pre\<close> the line continues with an opening bracket, the non-empty text \<open>body\<close> free of
  closing brackets, and a closing bracket. The first bracketed substring is the one with
  the shortest prefix.
\<close>

definition is_bracketed :: "string \<Rightarrow> string \<Rightarrow> string \<Rightarrow> bool" where
  "is_bracketed line pre body =
     (body \<noteq> [] \<and> CHR '']'' \<notin> set body
      \<and> (\<exists>post. line = pre @ CHR ''['' # body @ CHR '']'' # post))"

definition first_bracketed :: "string \<Rightarrow> string \<Rightarrow> bool" where
  "first_bracketed line body =
     (\<exists>pre. is_bracketed line pre body
        \<and> (\<forall>pre' body'. is_bracketed line pre' body' \<longrightarrow> length pre \<le> length pre'))"

text \<open>
  The fields of an event type whose patterns match a line, with the matched text, in the
  order of the patterns; and the patterns configured for an event type.
\<close>

definition matched_fields ::
  "'f pylib \<Rightarrow> string \<Rightarrow> (string \<times> string) list \<Rightarrow> (string \<times> evalue) list" where
  "matched_fields L line patterns =
     List.map_filter
       (\<lambda>(field, pat). case re_search_group1 L pat line of
                          Inr (Some g) \<Rightarrow> Some (field, EStr g)
                        | _ \<Rightarrow> None) patterns"


text \<open>
  An event as \<^verbatim>\<open>parse_line\<close> makes it for the state machine: a parsed time stamp, the
  given event type, and a source file.
\<close>

definition is_event :: "event \<Rightarrow> string \<Rightarrow> bool" where
  "is_event ev ty =
     (has_time ev \<and> map_of ev ''type'' = Some (EStr ty) \<and> map_of ev ''file'' \<noteq> None)"

section \<open>Sample data\<close>

definition sample_init :: "int \<Rightarrow> event" where
  "sample_init t =
     [(''time'', ETime t), (''file'', EStr ''sample.log''), (''type'', EStr ''init''),
      (''Step'', EStr ''1'')]"

definition sample_execute :: "int \<Rightarrow> string \<Rightarrow> event" where
  "sample_execute t v =
     [(''time'', ETime t), (''file'', EStr ''sample.log''), (''type'', EStr ''execute''),
      (''Value'', EStr v)]"

text \<open>
  A small instance of the library, enough to run the model on the sample lines: floats
  are exact rationals with one not-a-number value, \<open>float\<close> reads digit strings and
  \<^verbatim>\<open>nan\<close>, patterns are a literal text followed by the group \<^verbatim>\<open>([0-9]+)\<close>, and the two
  time stamps of the sample log are known (in microseconds after the first).
\<close>

datatype sample_float = Finite rat | NotANumber

definition is_digit :: "char \<Rightarrow> bool" where
  "is_digit c = (CHR ''0'' \<le> c \<and> c \<le> CHR ''9'')"

definition nat_of_digits :: "string \<Rightarrow> nat" where
  "nat_of_digits s = foldl (\<lambda>n c. 10 * n + (of_char c - 48)) 0 s"

definition sample_float_of_str :: "string \<Rightarrow> sample_float option" where
  "sample_float_of_str s =
     (if s = ''nan'' then Some NotANumber
      else if s \<noteq> [] \<and> list_all is_digit s then Some (Finite (of_nat (nat_of_digits s)))
      else None)"

fun sample_add :: "sample_float \<Rightarrow> sample_float \<Rightarrow> sample_float" where
  "sample_add (Finite a) (Finite b) = Finite (a + b)"
| "sample_add _ _ = NotANumber"

fun sample_div :: "sample_float \<Rightarrow> sample_float \<Rightarrow> sample_float" where
  "sample_div (Finite a) (Finite b) = Finite (a / b)"
| "sample_div _ _ = NotANumber"

fun sample_round :: "sample_float \<Rightarrow> nat \<Rightarrow> sample_float" where
  "sample_round (Finite a) n = Finite (of_int (round (a * 10 ^ n)) / 10 ^ n)"
| "sample_round NotANumber n = NotANumber"

fun sample_isnan :: "sample_float \<Rightarrow> bool" where
  "sample_isnan NotANumber = True"
| "sample_isnan (Finite a) = False"

fun sample_nonzero :: "sample_float \<Rightarrow> bool" where
  "sample_nonzero NotANumber = True"
| "sample_nonzero (Finite a) = (a \<noteq> 0)"

fun search_digits :: "string \<Rightarrow> string \<Rightarrow> string option" where
  "search_digits lit [] = None"
| "search_digits lit (c # cs) =
     (if take (length lit) (c # cs) = lit
         \<and> takeWhile is_digit (drop (length lit) (c # cs)) \<noteq> []
      then Some (takeWhile is_digit (drop (length lit) (c # cs)))
      else search_digits lit cs)"

definition sample_re_search :: "string \<Rightarrow> string \<Rightarrow> py_error + string option" where
  "sample_re_search pat line =
     (if 8 \<le> length pat \<and> drop (length pat - 8) pat = ''([0-9]+)''
      then Inr (search_digits (take (length pat - 8) pat) line)
      else Inl ReError)"

definition sample_strptime :: "string \<Rightarrow> string \<Rightarrow> py_error + int" where
  "sample_strptime s fmt =
     (if fmt = ''%Y/%m/%d %H:%M:%S.%f''
      then (case map_of [(''2025/07/09 00:00:00.000'', 0), (''2025/07/09 00:00:01.000'', 1000000)] s of
              Some t \<Rightarrow> Inr t
            | None \<Rightarrow> Inl ValueError)
      else if fmt = ''%Y %Y'' then Inl ReError
      else Inl ValueError)"

definition sample_strftime :: "int \<Rightarrow> string" where
  "sample_strftime t =
     (if t = 0 then ''25/07/09 00:00:00''
      else if t = 1000000 then ''25/07/09 00:00:01'' else ''25/07/09'')"

definition sample_lib :: "sample_float pylib" where
  "sample_lib =
     \<lparr>re_search_group1 = sample_re_search,
      strptime = sample_strptime,
      strftime_start = sample_strftime,
      float_of_str = sample_float_of_str,
      float_of_int = (\<lambda>i. Finite (of_int i)),
      fsum = foldl sample_add (Finite 0),
      fdiv = sample_div,
      fround = sample_round,
      fisnan = sample_isnan,
      fnonzero = sample_nonzero,
      total_seconds = (\<lambda>d. Finite (of_int d / 1000000))\<rparr>"

text \<open>The configuration and the log of the repository's test.\<close>

definition sample_config :: config where
  "sample_config =
     \<lparr>EVENT_SEQUENCE = [''init'', ''execute''],
      PATTERN_CONFIG = [(''init'', [(''Step'', ''Step=([0-9]+)'')]),
                        (''execute'', [(''Value'', ''Value=([0-9]+)'')])],
      TIMESTAMP_FORMATS = [''%Y/%m/%d %H:%M:%S.%f'']\<rparr>"

definition empty_processor :: "'f processor" where
  "empty_processor =
     \<lparr>events = [], results = [],
      metrics = \<lparr>files_processed = 0, events_parsed = 0, cycles_completed = 0,
                 cycle_errors = 0\<rparr>\<rparr>"

text \<open>An event whose type is not a stage of the sample sequence.\<close>

definition sample_noise :: "int \<Rightarrow> event" where
  "sample_noise t =
     [(''time'', ETime t), (''file'', EStr ''sample.log''), (''type'', EStr ''noise'')]"

text \<open>
  A cycle of the sample configuration with the given repeating-stage events, a
  configuration with a second field on the repeating stage, and one whose sequence is the
  single stage \<open>init\<close>.
\<close>

definition sample_cycle :: "event list \<Rightarrow> cycle" where
  "sample_cycle evs = [(''init'', SEvent (sample_init 0)), (''execute'', SList evs)]"

definition two_field_config :: config where
  "two_field_config =
     \<lparr>EVENT_SEQUENCE = [''init'', ''execute''],
      PATTERN_CONFIG = [(''init'', [(''Step'', ''Step=([0-9]+)'')]),
                        (''execute'', [(''Value'', ''Value=([0-9]+)''),
                                       (''Temp'', ''Temp=([0-9]+)'')])],
      TIMESTAMP_FORMATS = [''%Y/%m/%d %H:%M:%S.%f'']\<rparr>"

definition one_stage_config :: config where
  "one_stage_config =
     \<lparr>EVENT_SEQUENCE = [''init''],
      PATTERN_CONFIG = [(''init'', [(''Step'', ''Step=([0-9]+)'')])],
      TIMESTAMP_FORMATS = [''%Y/%m/%d %H:%M:%S.%f'']\<rparr>"


text \<open>
  A configuration whose first time stamp format repeats a directive, followed by the
  format of the sample log.
\<close>

definition repeated_directive_config :: config where
  "repeated_directive_config =
     \<lparr>EVENT_SEQUENCE = [''init'', ''execute''],
      PATTERN_CONFIG = [(''init'', [(''Step'', ''Step=([0-9]+)'')]),
                        (''execute'', [(''Value'', ''Value=([0-9]+)'')])],
      TIMESTAMP_FORMATS = [''%Y %Y'', ''%Y/%m/%d %H:%M:%S.%f'']\<rparr>"

text \<open>The field names configured for a stage (none for a stage without patterns).\<close>

definition stage_fields :: "config \<Rightarrow> string \<Rightarrow> string list" where
  "stage_fields cfg stage =
     (case map_of (PATTERN_CONFIG cfg) stage of None \<Rightarrow> [] | Some pats \<Rightarrow> map fst pats)"

section \<open>Properties of the state machine\<close>

lemma sort_events_sorted:
  assumes "list_all has_time evs" and "sorted (map time_key evs)"
  shows "sort_events evs = Inr evs"
proof -
  have "\<not> list_ex (\<lambda>ev. map_of ev ''time'' = None) evs"
    using assms(1) by (auto simp: list_all_iff list_ex_iff has_time_def split: option.splits)
  then show ?thesis
    using assms by (simp add: sort_events_def sort_key_id_if_sorted)
qed

lemma new_cycle_init_execute:
  "new_cycle [''init'', ''execute''] = [(''init'', SNone), (''execute'', SList [])]"
  by (simp add: new_cycle_def)

text \<open>
  Claim C1. With the event sequence \<open>[init, execute]\<close>, the time-ordered events
  \<open>init, execute, init, execute\<close> make \<^verbatim>\<open>analyze_events\<close> finalize exactly two cycles,
  each holding its \<open>init\<close> event and the list of its one \<open>execute\<close> event; the
  time-ordered events \<open>execute, init\<close> make it finalize none.
\<close>

theorem two_cycles_then_none:
  assumes "is_event e1 ''init''" "is_event e2 ''execute''"
    and "is_event e3 ''init''" "is_event e4 ''execute''"
    and "sorted (map time_key [e1, e2, e3, e4])"
    and "is_event x1 ''execute''" "is_event x2 ''init''"
    and "sorted (map time_key [x1, x2])"
  shows "finalized_cycles [''init'', ''execute''] [e1, e2, e3, e4] =
           Inr [([(''init'', SEvent e1), (''execute'', SList [e2])],
                 {the (map_of e1 ''file''), the (map_of e2 ''file'')}),
                ([(''init'', SEvent e3), (''execute'', SList [e4])],
                 {the (map_of e3 ''file''), the (map_of e4 ''file'')})]
         \<and> finalized_cycles [''init'', ''execute''] [x1, x2] = Inr []"
proof -
  have s1: "sort_events [e1, e2, e3, e4] = Inr [e1, e2, e3, e4]"
    using assms by (intro sort_events_sorted) (simp_all add: is_event_def)
  have s2: "sort_events [x1, x2] = Inr [x1, x2]"
    using assms by (intro sort_events_sorted) (simp_all add: is_event_def)
  have a: "finalized_cycles [''init'', ''execute''] [e1, e2, e3, e4] =
           Inr [([(''init'', SEvent e1), (''execute'', SList [e2])],
                 {the (map_of e1 ''file''), the (map_of e2 ''file'')}),
                ([(''init'', SEvent e3), (''execute'', SList [e4])],
                 {the (map_of e3 ''file''), the (map_of e4 ''file'')})]"
    using assms(1-4)
    by (auto simp: finalized_cycles_def s1 init_mstate_def sm_step_def new_cycle_init_execute
        cycle_append_def is_event_def)
  have b: "finalized_cycles [''init'', ''execute''] [x1, x2] = Inr []"
    using assms(6,7)
    by (auto simp: finalized_cycles_def s2 init_mstate_def sm_step_def new_cycle_init_execute
        cycle_append_def is_event_def)
  show ?thesis using a b by simp
qed

theorem two_cycles_then_none_witness:
  "is_event (sample_init 0) ''init'' \<and> is_event (sample_execute 1 ''100'') ''execute''
   \<and> sorted (map time_key [sample_init 0, sample_execute 1 ''100'', sample_init 2,
                              sample_execute 3 ''200''])
   \<and> (\<exists>c1 c2. finalized_cycles [''init'', ''execute'']
          [sample_init 0, sample_execute 1 ''100'', sample_init 2, sample_execute 3 ''200'']
        = Inr [c1, c2])
   \<and> finalized_cycles [''init'', ''execute''] [sample_execute 0 ''100'', sample_init 1] = Inr []"
proof -
  have i: "is_event (sample_init t) ''init''" for t
    by (simp add: is_event_def has_time_def sample_init_def)
  have e: "is_event (sample_execute t v) ''execute''" for t v
    by (simp add: is_event_def has_time_def sample_execute_def)
  have k: "time_key (sample_init t) = t" "time_key (sample_execute t v) = t" for t v
    by (simp_all add: time_key_def sample_init_def sample_execute_def)
  show ?thesis
    using two_cycles_then_none [OF i [of 0] e [of 1 "''100''"] i [of 2] e [of 3 "''200''"] _
        e [of 0 "''100''"] i [of 1]]
    by (simp add: i e k)
qed

section \<open>Properties of the aggregator\<close>

lemma map_of_fold_update_other:
  "k \<notin> set ks \<Longrightarrow> map_of (fold (\<lambda>f. AList.update f (g f)) ks r) k = map_of r k"
  by (induction ks arbitrary: r) (auto simp: update_conv')

lemma merge_stage_other:
  assumes "merge_stage cfg c stage r = Inr r'"
    and "\<And>pats. map_of (PATTERN_CONFIG cfg) stage = Some pats \<Longrightarrow> k \<notin> fst ` set pats"
  shows "map_of r' k = map_of r k"
  using assms
  by (auto simp: merge_stage_def map_of_fold_update_other
      split: option.splits slot.splits if_splits)

lemma add_averages_other:
  assumes "add_averages L timing fs r = Inr r'" and "\<And>f. f \<in> set fs \<Longrightarrow> k \<noteq> ''Avg'' @ f"
  shows "map_of r' k = map_of r k"
  using assms
  by (induction fs arbitrary: r) (auto simp: update_conv' split: sum.splits)

lemma add_averages_key:
  assumes "add_averages L timing fs r = Inr r'" and "f \<in> set fs"
  shows "\<exists>vs. slot_values L f timing = Inr vs \<and> map_of r' (''Avg'' @ f) = Some (average L vs)"
  using assms
proof (induction fs arbitrary: r)
  case Nil
  then show ?case by simp
next
  case (Cons g fs)
  from Cons.prems(1) obtain vs where vs: "slot_values L g timing = Inr vs"
    and rest: "add_averages L timing fs (AList.update (''Avg'' @ g) (average L vs) r) = Inr r'"
    by (auto split: sum.splits)
  show ?case
  proof (cases "f \<in> set fs")
    case True
    then show ?thesis using Cons.IH [OF rest] by simp
  next
    case False
    then have fg: "f = g" using Cons.prems(2) by simp
    have "map_of r' (''Avg'' @ f) = map_of (AList.update (''Avg'' @ g) (average L vs) r) (''Avg'' @ f)"
      using False by (intro add_averages_other [OF rest]) auto
    then show ?thesis using vs fg by (simp add: update_conv')
  qed
qed

lemma build_record_Inr:
  assumes "build_record L cfg c sf = Inr r"
  obtains joined start r1 r2 pats r3 n where
    "EVENT_SEQUENCE cfg \<noteq> []"
    "join_files sf = Inr joined"
    "start_time L c = Inr start"
    "merge_stage cfg c ''query'' [(''SourceFiles'', RStr joined), (''StartTime'', start)] = Inr r1"
    "merge_stage cfg c ''technique'' r1 = Inr r2"
    "map_of (PATTERN_CONFIG cfg) (last (EVENT_SEQUENCE cfg)) = Some pats"
    "add_averages L (timing_events c (last (EVENT_SEQUENCE cfg))) (map fst pats) r2 = Inr r3"
    "slot_len (timing_events c (last (EVENT_SEQUENCE cfg))) = Inr n"
    "r = (case duration L (timing_events c (last (EVENT_SEQUENCE cfg))) of
            None \<Rightarrow> AList.update ''frames'' (RInt (int n)) r3
          | Some d \<Rightarrow> AList.update ''Duration(s)'' d (AList.update ''frames'' (RInt (int n)) r3))"
  using assms
  by (auto simp: build_record_def Let_def split: if_splits sum.splits option.splits)

lemma build_record_frames:
  assumes "build_record L cfg c sf = Inr r"
  shows "\<exists>n. slot_len (timing_events c (last (EVENT_SEQUENCE cfg))) = Inr n
           \<and> map_of r ''frames'' = Some (RInt (int n))"
  using assms
  by (elim build_record_Inr) (auto simp: update_conv' split: option.splits)

lemma build_record_duration:
  assumes "build_record L cfg c sf = Inr r"
    and "duration L (timing_events c (last (EVENT_SEQUENCE cfg))) = Some d"
  shows "map_of r ''Duration(s)'' = Some d"
  using assms
  by (elim build_record_Inr) (auto simp: update_conv' split: option.splits)

lemma build_record_no_duration:
  assumes "build_record L cfg c sf = Inr r"
    and "duration L (timing_events c (last (EVENT_SEQUENCE cfg))) = None"
    and "\<And>pats. map_of (PATTERN_CONFIG cfg) ''query'' = Some pats \<Longrightarrow> ''Duration(s)'' \<notin> fst ` set pats"
    and "\<And>pats. map_of (PATTERN_CONFIG cfg) ''technique'' = Some pats \<Longrightarrow> ''Duration(s)'' \<notin> fst ` set pats"
  shows "map_of r ''Duration(s)'' = None"
proof -
  from assms(1) show ?thesis
  proof (rule build_record_Inr)
    fix joined start r1 r2 pats r3 n
    assume q: "merge_stage cfg c ''query'' [(''SourceFiles'', RStr joined), (''StartTime'', start)] = Inr r1"
      and t: "merge_stage cfg c ''technique'' r1 = Inr r2"
      and a: "add_averages L (timing_events c (last (EVENT_SEQUENCE cfg))) (map fst pats) r2 = Inr r3"
      and r: "r = (case duration L (timing_events c (last (EVENT_SEQUENCE cfg))) of
            None \<Rightarrow> AList.update ''frames'' (RInt (int n)) r3
          | Some d \<Rightarrow> AList.update ''Duration(s)'' d (AList.update ''frames'' (RInt (int n)) r3))"
    have "map_of r1 ''Duration(s)'' = None"
      using merge_stage_other [OF q, of "''Duration(s)''"] assms(3) by simp
    then have "map_of r2 ''Duration(s)'' = None"
      using merge_stage_other [OF t, of "''Duration(s)''"] assms(4) by simp
    then have "map_of r3 ''Duration(s)'' = None"
      using add_averages_other [OF a, of "''Duration(s)''"] by simp
    then show ?thesis using r assms(2) by (simp add: update_conv')
  qed
qed

lemma build_record_average:
  assumes "build_record L cfg c sf = Inr r"
    and "map_of (PATTERN_CONFIG cfg) (last (EVENT_SEQUENCE cfg)) = Some pats"
    and "field \<in> fst ` set pats"
  shows "\<exists>vs. slot_values L field (timing_events c (last (EVENT_SEQUENCE cfg))) = Inr vs
           \<and> map_of r (''Avg'' @ field) = Some (average L vs)"
proof -
  from assms(1) show ?thesis
  proof (rule build_record_Inr)
    fix joined start r1 r2 pats' r3 n
    assume p: "map_of (PATTERN_CONFIG cfg) (last (EVENT_SEQUENCE cfg)) = Some pats'"
      and a: "add_averages L (timing_events c (last (EVENT_SEQUENCE cfg))) (map fst pats') r2 = Inr r3"
      and r: "r = (case duration L (timing_events c (last (EVENT_SEQUENCE cfg))) of
            None \<Rightarrow> AList.update ''frames'' (RInt (int n)) r3
          | Some d \<Rightarrow> AList.update ''Duration(s)'' d (AList.update ''frames'' (RInt (int n)) r3))"
    have "field \<in> set (map fst pats')" using p assms(2,3) by simp
    from add_averages_key [OF a this] obtain vs where
      vs: "slot_values L field (timing_events c (last (EVENT_SEQUENCE cfg))) = Inr vs"
      and m: "map_of r3 (''Avg'' @ field) = Some (average L vs)" by blast
    have "map_of r (''Avg'' @ field) = map_of r3 (''Avg'' @ field)"
      using r by (simp add: update_conv' split: option.splits)
    then show ?thesis using vs m by simp
  qed
qed

lemmas sample_simps =
  build_record_def sample_config_def two_field_config_def one_stage_config_def
  timing_events_def join_files_def start_time_def
  merge_stage_def slot_values_def field_values_def field_value_def List.map_filter_def
  sample_execute_def sample_init_def sample_lib_def average_def duration_def
  sample_float_of_str_def is_digit_def nat_of_digits_def less_eq_char_def sample_cycle_def

text \<open>Records of the sample cycles, computed.\<close>

lemma one_event_record:
  "build_record sample_lib sample_config (sample_cycle [sample_execute 1000000 ''100''])
     {EStr ''sample.log''}
   = Inr [(''SourceFiles'', RStr ''sample.log''), (''StartTime'', RStr ''NA''),
          (''AvgValue'', RFloat (Finite 100)), (''frames'', RInt 1),
          (''Duration(s)'', RFloat (Finite 0))]"
  by (simp add: sample_simps)

lemma nan_record:
  "build_record sample_lib sample_config (sample_cycle [sample_execute 1000000 ''nan''])
     {EStr ''sample.log''}
   = Inr [(''SourceFiles'', RStr ''sample.log''), (''StartTime'', RStr ''NA''),
          (''AvgValue'', RFloat NotANumber), (''frames'', RInt 1),
          (''Duration(s)'', RFloat (Finite 0))]"
  by (simp add: sample_simps)

lemma two_event_record:
  "build_record sample_lib sample_config
     (sample_cycle [sample_execute 1000000 ''100'', sample_execute 3500000 ''200''])
     {EStr ''sample.log''}
   = Inr [(''SourceFiles'', RStr ''sample.log''), (''StartTime'', RStr ''NA''),
          (''AvgValue'', RFloat (Finite 150)), (''frames'', RInt 2),
          (''Duration(s)'', RFloat (Finite (5 / 2)))]"
  by (simp add: sample_simps)

lemma two_field_record:
  "build_record sample_lib two_field_config (sample_cycle [sample_execute 1000000 ''100''])
     {EStr ''sample.log''}
   = Inr [(''SourceFiles'', RStr ''sample.log''), (''StartTime'', RStr ''NA''),
          (''AvgValue'', RFloat (Finite 100)), (''AvgTemp'', RFloat (Finite 0)),
          (''frames'', RInt 1), (''Duration(s)'', RFloat (Finite 0))]"
  by (simp add: sample_simps)

lemma one_stage_record:
  "build_record sample_lib one_stage_config [(''init'', SEvent (sample_init 0))]
     {EStr ''sample.log''} = Inl AttributeError"
  by (simp add: sample_simps)

text \<open>
  Claim C2, as amended. In a record built from a cycle whose repeating stage holds the
  list \<open>evs\<close>: without events no \<open>Duration(s)\<close> is stored (the key is absent unless a
  \<open>query\<close> or \<open>technique\<close> field bears that name); with one or more events whose first
  and last time stamps are date-times, \<open>Duration(s)\<close> is the elapsed time between them in
  seconds, rounded to 3 places; so with exactly one event it is the rounded zero duration,
  not \<^verbatim>\<open>None\<close>.
\<close>

theorem duration_of_record:
  assumes "build_record L cfg c sf = Inr r"
    and "timing_events c (last (EVENT_SEQUENCE cfg)) = SList evs"
  shows "(evs = [] \<and> ''Duration(s)'' \<notin> set (stage_fields cfg ''query'')
            \<and> ''Duration(s)'' \<notin> set (stage_fields cfg ''technique'')
          \<longrightarrow> map_of r ''Duration(s)'' = None)
       \<and> (\<forall>start_t end_t. evs \<noteq> [] \<and> map_of (hd evs) ''time'' = Some (ETime start_t)
              \<and> map_of (last evs) ''time'' = Some (ETime end_t)
            \<longrightarrow> map_of r ''Duration(s)''
                  = Some (RFloat (fround L (total_seconds L (end_t - start_t)) 3)))
       \<and> (\<forall>e t. evs = [e] \<and> map_of e ''time'' = Some (ETime t)
            \<longrightarrow> map_of r ''Duration(s)'' = Some (RFloat (fround L (total_seconds L 0) 3)))"
proof (intro conjI allI impI)
  assume a: "evs = [] \<and> ''Duration(s)'' \<notin> set (stage_fields cfg ''query'')
            \<and> ''Duration(s)'' \<notin> set (stage_fields cfg ''technique'')"
  have d: "duration L (timing_events c (last (EVENT_SEQUENCE cfg))) = None"
    using a assms(2) by (simp add: duration_def)
  show "map_of r ''Duration(s)'' = None"
    using a by (intro build_record_no_duration [OF assms(1) d]) (auto simp: stage_fields_def)
next
  fix start_t end_t
  assume a: "evs \<noteq> [] \<and> map_of (hd evs) ''time'' = Some (ETime start_t)
              \<and> map_of (last evs) ''time'' = Some (ETime end_t)"
  have d: "duration L (timing_events c (last (EVENT_SEQUENCE cfg)))
             = Some (RFloat (fround L (total_seconds L (end_t - start_t)) 3))"
    using a assms(2) by (simp add: duration_def)
  show "map_of r ''Duration(s)'' = Some (RFloat (fround L (total_seconds L (end_t - start_t)) 3))"
    by (rule build_record_duration [OF assms(1) d])
next
  fix e t
  assume a: "evs = [e] \<and> map_of e ''time'' = Some (ETime t)"
  have d: "duration L (timing_events c (last (EVENT_SEQUENCE cfg)))
             = Some (RFloat (fround L (total_seconds L 0) 3))"
    using a assms(2) by (simp add: duration_def)
  show "map_of r ''Duration(s)'' = Some (RFloat (fround L (total_seconds L 0) 3))"
    by (rule build_record_duration [OF assms(1) d])
qed

theorem duration_of_record_witness:
  "map_of [(''SourceFiles'', RStr ''sample.log''), (''StartTime'', RStr ''NA''),
           (''AvgValue'', RFloat (Finite 150)), (''frames'', RInt 2),
           (''Duration(s)'', RFloat (Finite (5 / 2)))] ''Duration(s)''
     = Some (RFloat (fround sample_lib (total_seconds sample_lib (3500000 - 1000000)) 3))"
proof -
  have t: "timing_events
             (sample_cycle [sample_execute 1000000 ''100'', sample_execute 3500000 ''200''])
             (last (EVENT_SEQUENCE sample_config))
           = SList [sample_execute 1000000 ''100'', sample_execute 3500000 ''200'']"
    by (simp add: timing_events_def sample_cycle_def sample_config_def)
  show ?thesis
    using duration_of_record [OF two_event_record t]
    by (simp add: sample_execute_def)
qed

text \<open>
  Claim C2 as stated fails: the record of a cycle with exactly one repeating-stage event
  has \<open>Duration(s) = 0.0\<close>, neither \<^verbatim>\<open>None\<close> nor absent.
\<close>

theorem single_event_duration_counterexample:
  "build_record sample_lib sample_config (sample_cycle [sample_execute 1000000 ''100''])
     {EStr ''sample.log''}
   = Inr [(''SourceFiles'', RStr ''sample.log''), (''StartTime'', RStr ''NA''),
          (''AvgValue'', RFloat (Finite 100)), (''frames'', RInt 1),
          (''Duration(s)'', RFloat (Finite 0))]"
  by (simp add: sample_simps)

text \<open>
  Claim C4, as amended. For every field configured on the repeating (last) stage, in a
  record built from a cycle whose repeating stage holds the list \<open>evs\<close>, \<open>Avg<field>\<close> is
  the mean, rounded to 2 places, of the values the events contribute: the float of the
  event's string for that field, nothing when the conversion fails, and the value 0 when
  the event has no such field; it is \<^verbatim>\<open>None\<close> when no event contributed a value.
\<close>

theorem average_of_record:
  assumes "build_record L cfg c sf = Inr r"
    and "timing_events c (last (EVENT_SEQUENCE cfg)) = SList evs"
    and "map_of (PATTERN_CONFIG cfg) (last (EVENT_SEQUENCE cfg)) = Some pats"
    and "(field, pat) \<in> set pats"
  shows "map_of r (''Avg'' @ field) =
           Some (let values = List.map_filter
                       (\<lambda>e. case map_of e field of
                               None \<Rightarrow> Some (float_of_int L 0)
                             | Some (EStr s) \<Rightarrow> float_of_str L s
                             | Some (ETime t) \<Rightarrow> None) evs
                 in if values = [] then RNone
                    else RFloat (fround L (fdiv L (fsum L values)
                                             (float_of_int L (int (length values)))) 2))"
proof -
  have "field \<in> fst ` set pats" using assms(4) by force
  from build_record_average [OF assms(1) assms(3) this] obtain vs where
    vs: "slot_values L field (timing_events c (last (EVENT_SEQUENCE cfg))) = Inr vs"
    and m: "map_of r (''Avg'' @ field) = Some (average L vs)" by blast
  have "vs = field_values L field evs"
    using vs assms(2) by (simp add: slot_values_def)
  moreover have "field_value L field =
      (\<lambda>e. case map_of e field of
              None \<Rightarrow> Some (float_of_int L 0)
            | Some (EStr s) \<Rightarrow> float_of_str L s
            | Some (ETime t) \<Rightarrow> None)"
    by (rule ext) (simp add: field_value_def)
  ultimately show ?thesis
    using m by (simp add: average_def field_values_def Let_def)
qed

theorem average_of_record_witness:
  "map_of [(''SourceFiles'', RStr ''sample.log''), (''StartTime'', RStr ''NA''),
           (''AvgValue'', RFloat (Finite 150)), (''frames'', RInt 2),
           (''Duration(s)'', RFloat (Finite (5 / 2)))] ''AvgValue''
     = Some (RFloat (fround sample_lib
               (fdiv sample_lib (fsum sample_lib [Finite 100, Finite 200])
                  (float_of_int sample_lib 2)) 2))"
proof -
  have t: "timing_events
             (sample_cycle [sample_execute 1000000 ''100'', sample_execute 3500000 ''200''])
             (last (EVENT_SEQUENCE sample_config))
           = SList [sample_execute 1000000 ''100'', sample_execute 3500000 ''200'']"
    by (simp add: timing_events_def sample_cycle_def sample_config_def)
  have p: "map_of (PATTERN_CONFIG sample_config) (last (EVENT_SEQUENCE sample_config))
             = Some [(''Value'', ''Value=([0-9]+)'')]"
    by (simp add: sample_config_def)
  have f: "float_of_str sample_lib ''100'' = Some (Finite 100)"
    "float_of_str sample_lib ''200'' = Some (Finite 200)"
    by (simp_all add: sample_lib_def sample_float_of_str_def is_digit_def nat_of_digits_def
        less_eq_char_def)
  have "map_of [(''SourceFiles'', RStr ''sample.log''), (''StartTime'', RStr ''NA''),
           (''AvgValue'', RFloat (Finite 150)), (''frames'', RInt 2),
           (''Duration(s)'', RFloat (Finite (5 / 2)))] (''Avg'' @ ''Value'')
     = Some (RFloat (fround sample_lib
               (fdiv sample_lib (fsum sample_lib [Finite 100, Finite 200])
                  (float_of_int sample_lib 2)) 2))"
    using average_of_record [OF two_event_record t p, of "''Value''" "''Value=([0-9]+)''"]
    by (simp add: sample_execute_def List.map_filter_def f)
  then show ?thesis by simp
qed

text \<open>
  Claim C4 as stated fails: the one event of this cycle has no field \<open>Temp\<close>, and the
  record's \<open>AvgTemp\<close> is \<open>0.0\<close>, not \<^verbatim>\<open>None\<close>.
\<close>

theorem absent_field_average_counterexample:
  "map_of (sample_execute 1000000 ''100'') ''Temp'' = None
   \<and> build_record sample_lib two_field_config (sample_cycle [sample_execute 1000000 ''100''])
       {EStr ''sample.log''}
     = Inr [(''SourceFiles'', RStr ''sample.log''), (''StartTime'', RStr ''NA''),
            (''AvgValue'', RFloat (Finite 100)), (''AvgTemp'', RFloat (Finite 0)),
            (''frames'', RInt 1), (''Duration(s)'', RFloat (Finite 0))]"
  by (simp add: two_field_record) (simp add: sample_execute_def)

text \<open>
  Claim C5, as amended. When the record of a finalized cycle fails validation, the record
  is dropped and the processor is unchanged: no counter is incremented. When building the
  record raises, the cycle is dropped and \<open>cycle_errors\<close> is incremented. (Validation
  itself cannot raise.) An accepted record is appended and \<open>cycles_completed\<close> is
  incremented.
\<close>

theorem finalize_cycle_outcomes:
  "(\<forall>r. build_record L cfg c sf = Inr r \<and> \<not> validate_record L r
        \<longrightarrow> finalize_cycle L cfg (c, sf) p = p)
   \<and> (\<forall>e. build_record L cfg c sf = Inl e
        \<longrightarrow> results (finalize_cycle L cfg (c, sf) p) = results p
          \<and> cycle_errors (metrics (finalize_cycle L cfg (c, sf) p)) = cycle_errors (metrics p) + 1
          \<and> cycles_completed (metrics (finalize_cycle L cfg (c, sf) p))
              = cycles_completed (metrics p))
   \<and> (\<forall>r. build_record L cfg c sf = Inr r \<and> validate_record L r
        \<longrightarrow> results (finalize_cycle L cfg (c, sf) p) = results p @ [r]
          \<and> cycle_errors (metrics (finalize_cycle L cfg (c, sf) p)) = cycle_errors (metrics p)
          \<and> cycles_completed (metrics (finalize_cycle L cfg (c, sf) p))
              = cycles_completed (metrics p) + 1)"
  by (simp add: finalize_cycle_def)

lemma nan_record_rejected:
  "\<not> validate_record sample_lib
       [(''SourceFiles'', RStr ''sample.log''), (''StartTime'', RStr ''NA''),
        (''AvgValue'', RFloat NotANumber), (''frames'', RInt 1),
        (''Duration(s)'', RFloat (Finite 0))]"
  by (simp add: validate_record_def sample_lib_def)

theorem finalize_cycle_outcomes_witness:
  "finalize_cycle sample_lib sample_config
     (sample_cycle [sample_execute 1000000 ''nan''], {EStr ''sample.log''}) empty_processor
     = empty_processor
   \<and> cycle_errors (metrics (finalize_cycle sample_lib one_stage_config
        ([(''init'', SEvent (sample_init 0))], {EStr ''sample.log''}) empty_processor)) = 1"
  using finalize_cycle_outcomes [of sample_lib sample_config
      "sample_cycle [sample_execute 1000000 ''nan'']" "{EStr ''sample.log''}" empty_processor]
    finalize_cycle_outcomes [of sample_lib one_stage_config
      "[(''init'', SEvent (sample_init 0))]" "{EStr ''sample.log''}" empty_processor]
    nan_record nan_record_rejected one_stage_record
  by (simp add: empty_processor_def)

text \<open>
  Claim C5 as stated fails: this cycle's record holds a not-a-number average, validation
  rejects it, and \<open>cycle_errors\<close> is still 0 after \<^verbatim>\<open>finalize_cycle\<close>.
\<close>

theorem rejected_record_not_counted_counterexample:
  "build_record sample_lib sample_config (sample_cycle [sample_execute 1000000 ''nan''])
     {EStr ''sample.log''}
     = Inr [(''SourceFiles'', RStr ''sample.log''), (''StartTime'', RStr ''NA''),
            (''AvgValue'', RFloat NotANumber), (''frames'', RInt 1),
            (''Duration(s)'', RFloat (Finite 0))]
   \<and> \<not> validate_record sample_lib
        [(''SourceFiles'', RStr ''sample.log''), (''StartTime'', RStr ''NA''),
         (''AvgValue'', RFloat NotANumber), (''frames'', RInt 1),
         (''Duration(s)'', RFloat (Finite 0))]
   \<and> cycle_errors (metrics (finalize_cycle sample_lib sample_config
        (sample_cycle [sample_execute 1000000 ''nan''], {EStr ''sample.log''})
        empty_processor)) = 0"
  using nan_record nan_record_rejected
  by (simp add: finalize_cycle_def empty_processor_def)

lemma list_ex_is_nan:
  "list_ex (is_nan L) (map snd r) \<longleftrightarrow> (\<exists>k x. (k, RFloat x) \<in> set r \<and> fisnan L x)"
proof
  assume "list_ex (is_nan L) (map snd r)"
  then obtain k v where kv: "(k, v) \<in> set r" "is_nan L v"
    by (auto simp: list_ex_iff)
  then show "\<exists>k x. (k, RFloat x) \<in> set r \<and> fisnan L x"
    by (cases v) auto
next
  assume "\<exists>k x. (k, RFloat x) \<in> set r \<and> fisnan L x"
  then show "list_ex (is_nan L) (map snd r)"
    by (force simp: list_ex_iff)
qed

text \<open>
  Claim C6, as amended. Validation accepts a record exactly when its \<open>StartTime\<close> is
  present and true as a Python value (for a string: non-empty, so the default \<^verbatim>\<open>"NA"\<close> is
  accepted), its \<open>frames\<close> is an integer, and no float of the record is not-a-number. In
  a built record \<open>frames\<close> is a count, hence non-negative.
\<close>

theorem validate_record_accepts:
  "(validate_record L r \<longleftrightarrow>
      truthy L (map_of r ''StartTime'')
      \<and> (\<exists>i. map_of r ''frames'' = Some (RInt i))
      \<and> (\<forall>k x. (k, RFloat x) \<in> set r \<longrightarrow> \<not> fisnan L x))
   \<and> (\<forall>s. map_of r ''StartTime'' = Some (RStr s)
        \<longrightarrow> truthy L (map_of r ''StartTime'') = (s \<noteq> []))
   \<and> (map_of r ''StartTime'' = None \<longrightarrow> \<not> validate_record L r)
   \<and> (\<forall>cfg c sf. build_record L cfg c sf = Inr r
        \<longrightarrow> (\<exists>n. map_of r ''frames'' = Some (RInt (int n))))"
proof -
  have i: "is_int v \<longleftrightarrow> (\<exists>i. v = Some (RInt i))" for v :: "'a rvalue option"
    by (cases v rule: is_int.cases) auto
  have "validate_record L r \<longleftrightarrow>
      truthy L (map_of r ''StartTime'')
      \<and> (\<exists>i. map_of r ''frames'' = Some (RInt i))
      \<and> (\<forall>k x. (k, RFloat x) \<in> set r \<longrightarrow> \<not> fisnan L x)"
    unfolding validate_record_def list_ex_is_nan i by auto
  moreover have "\<forall>cfg c sf. build_record L cfg c sf = Inr r
        \<longrightarrow> (\<exists>n. map_of r ''frames'' = Some (RInt (int n)))"
    using build_record_frames by blast
  ultimately show ?thesis by (auto simp: validate_record_def)
qed

theorem validate_record_accepts_witness:
  "validate_record sample_lib
     [(''SourceFiles'', RStr ''sample.log''), (''StartTime'', RStr ''NA''),
      (''AvgValue'', RFloat (Finite 100)), (''frames'', RInt 1),
      (''Duration(s)'', RFloat (Finite 0))]
   \<and> \<not> validate_record sample_lib [(''StartTime'', RStr ''''), (''frames'', RInt 1)]"
  using validate_record_accepts [of sample_lib
      "[(''SourceFiles'', RStr ''sample.log''), (''StartTime'', RStr ''NA''),
        (''AvgValue'', RFloat (Finite 100)), (''frames'', RInt 1),
        (''Duration(s)'', RFloat (Finite 0))]"]
    validate_record_accepts [of sample_lib "[(''StartTime'', RStr ''''), (''frames'', RInt 1)]"]
  by (simp add: sample_lib_def)

text \<open>
  Claim C6 as stated fails: the record built for the cycle of the repository's test has
  \<open>StartTime = "NA"\<close> and validation accepts it.
\<close>

theorem start_time_na_accepted_counterexample:
  "build_record sample_lib sample_config (sample_cycle [sample_execute 1000000 ''100''])
     {EStr ''sample.log''}
     = Inr [(''SourceFiles'', RStr ''sample.log''), (''StartTime'', RStr ''NA''),
            (''AvgValue'', RFloat (Finite 100)), (''frames'', RInt 1),
            (''Duration(s)'', RFloat (Finite 0))]
   \<and> validate_record sample_lib
        [(''SourceFiles'', RStr ''sample.log''), (''StartTime'', RStr ''NA''),
         (''AvgValue'', RFloat (Finite 100)), (''frames'', RInt 1),
         (''Duration(s)'', RFloat (Finite 0))]"
  using one_event_record by (simp add: validate_record_def sample_lib_def)

section \<open>The slot of the repeating stage\<close>

lemma list_index_Some:
  "list_index xs x = Some i \<Longrightarrow> i < length xs \<and> xs ! i = x"
  by (induction xs arbitrary: i) (auto split: if_splits)

lemma list_index_mem:
  "x \<in> set xs \<Longrightarrow> \<exists>i. list_index xs x = Some i"
  by (induction xs) auto

lemma map_of_new_cycle_last:
  "map_of (new_cycle seq) (last seq) = Some (SList [])"
  by (simp add: new_cycle_def update_conv')

lemma finalized_cycles_from:
  "finalized_cycles seq evs =
     (if evs = [] then Inr []
      else case sort_events evs of
        Inl e \<Rightarrow> Inl e
      | Inr sorted_evs \<Rightarrow>
         (case init_mstate seq of
            Inl e \<Rightarrow> Inl e
          | Inr m0 \<Rightarrow> finalized_from seq sorted_evs m0))"
  by (simp add: finalized_cycles_def finalized_from_def split: sum.splits)

lemma sm_step_inv:
  assumes "2 \<le> length seq" and "timing_inv seq m" and "sm_step seq ev m = Inr (m', out)"
  shows "timing_inv seq m'
       \<and> (\<forall>c sf. out = Some (c, sf) \<longrightarrow> (\<exists>e. map_of c (last seq) = Some (SList [e])))"
proof (cases "map_of ev ''type''")
  case None
  then show ?thesis using assms(3) by (simp add: sm_step_def)
next
  case (Some ty)
  show ?thesis
  proof (cases ty)
    case (ETime t)
    then show ?thesis using assms Some by (simp add: sm_step_def)
  next
    case (EStr key)
    show ?thesis
    proof (cases "list_index seq key")
      case None
      then show ?thesis using assms Some EStr by (simp add: sm_step_def)
    next
      case (Some idx)
      note idx = list_index_Some [OF Some]
      have ty: "map_of ev ''type'' = Some (EStr key)" using \<open>map_of ev ''type'' = Some ty\<close> EStr by simp
      consider (first) "idx = 0" | (expected) "idx \<noteq> 0" "idx = state m" | (other) "idx \<noteq> 0" "idx \<noteq> state m"
        by blast
      then show ?thesis
      proof cases
        case first
        then obtain f where f: "map_of ev ''file'' = Some f"
          and m': "m' = \<lparr>state = 1, cycle = AList.update key (SEvent ev) (new_cycle seq),
                         source_files = {f}\<rparr>"
          and out: "out = (if state m = length seq then Some (cycle m, source_files m) else None)"
          using assms(3) ty Some by (auto simp: sm_step_def split: option.splits)
        have "key \<noteq> last seq" if "list_index seq (last seq) = Some (length seq - 1)"
          using that Some first assms(1) by auto
        then have "timing_inv seq m'"
          using assms(1) by (auto simp: timing_inv_def m' update_conv' map_of_new_cycle_last)
        moreover have "\<exists>e. map_of c (last seq) = Some (SList [e])" if "out = Some (c, sf)" for c sf
          using that out assms(2) by (auto simp: timing_inv_def split: if_splits)
        ultimately show ?thesis by blast
      next
        case expected
        have lt: "state m < length seq" "0 < state m" using idx expected by auto
        show ?thesis
        proof (cases "idx = length seq - 1")
          case True
          have "seq \<noteq> []" using assms(1) by auto
          then have "seq ! idx = last seq" using True by (simp add: last_conv_nth)
          then have kl: "key = last seq" using idx by simp
          then have "list_index seq (last seq) = Some (length seq - 1)" using Some True by simp
          then have sl: "map_of (cycle m) key = Some (SList [])"
            using assms(2) lt kl by (simp add: timing_inv_def)
          then obtain f where "map_of ev ''file'' = Some f"
            and m': "m' = \<lparr>state = state m + 1, cycle = AList.update key (SList [ev]) (cycle m),
                           source_files = insert f (source_files m)\<rparr>"
            and out: "out = None"
            using assms(3) ty Some expected True
            by (auto simp: sm_step_def cycle_append_def split: option.splits)
          have "state m' = length seq" using m' expected True assms(1) by simp
          then have "timing_inv seq m'"
            by (simp add: timing_inv_def m' update_conv' kl)
          then show ?thesis using out by simp
        next
          case False
          then obtain f where "map_of ev ''file'' = Some f"
            and m': "m' = \<lparr>state = state m + 1, cycle = AList.update key (SEvent ev) (cycle m),
                           source_files = insert f (source_files m)\<rparr>"
            and out: "out = None"
            using assms(3) ty Some expected
            by (auto simp: sm_step_def split: option.splits)
          have s': "state m' < length seq" "0 < state m'" using m' False expected idx by auto
          have "key \<noteq> last seq" if "list_index seq (last seq) = Some (length seq - 1)"
            using that Some False by auto
          then have "timing_inv seq m'"
            using assms(2) lt s' by (auto simp: timing_inv_def m' update_conv')
          then show ?thesis using out by simp
        qed
      next
        case other
        then have "m' = m\<lparr>state := 0\<rparr>" "out = None"
          using assms(3) ty Some by (auto simp: sm_step_def)
        then show ?thesis using assms(1) by (auto simp: timing_inv_def)
      qed
    qed
  qed
qed

lemma loop_finalized_inv:
  assumes "2 \<le> length seq"
  shows "timing_inv seq m \<Longrightarrow> loop_finalized seq evs m = Inr (m', outs)
    \<Longrightarrow> timing_inv seq m' \<and> (\<forall>(c, sf) \<in> set outs. \<exists>e. map_of c (last seq) = Some (SList [e]))"
proof (induction evs arbitrary: m outs)
  case Nil
  then show ?case by simp
next
  case (Cons ev evs)
  from Cons.prems(2) obtain m1 out outs1 where
    st: "sm_step seq ev m = Inr (m1, out)"
    and lp: "loop_finalized seq evs m1 = Inr (m', outs1)"
    and outs: "outs = (case out of None \<Rightarrow> [] | Some c \<Rightarrow> [c]) @ outs1"
    by (auto split: sum.splits prod.splits)
  from sm_step_inv [OF assms Cons.prems(1) st]
  have i1: "timing_inv seq m1"
    and o1: "\<forall>c sf. out = Some (c, sf) \<longrightarrow> (\<exists>e. map_of c (last seq) = Some (SList [e]))"
    by blast+
  from Cons.IH [OF i1 lp] show ?case
    using o1 outs by (auto split: option.splits)
qed

lemma finalized_from_one_event:
  assumes "2 \<le> length seq" and "timing_inv seq m" and "finalized_from seq evs m = Inr cs"
    and "(c, sf) \<in> set cs"
  shows "\<exists>e. map_of c (last seq) = Some (SList [e])"
proof -
  from assms(3) obtain m' outs where
    lp: "loop_finalized seq evs m = Inr (m', outs)"
    and cs: "cs = outs @ (if state m' = length seq then [(cycle m', source_files m')] else [])"
    by (auto simp: finalized_from_def split: sum.splits prod.splits)
  from loop_finalized_inv [OF assms(1,2) lp] assms(4) cs show ?thesis
    by (auto simp: timing_inv_def split: if_splits)
qed

lemma finalized_cycles_one_event:
  assumes "2 \<le> length seq" and "finalized_cycles seq evs = Inr cs" and "(c, sf) \<in> set cs"
  shows "\<exists>e. map_of c (last seq) = Some (SList [e])"
proof (cases "evs = []")
  case True
  then show ?thesis using assms by (simp add: finalized_cycles_def)
next
  case False
  have "seq \<noteq> []" using assms(1) by auto
  then obtain sorted_evs where
    f: "finalized_from seq sorted_evs \<lparr>state = 0, cycle = new_cycle seq, source_files = {}\<rparr> = Inr cs"
    using assms(2) False
    by (auto simp: finalized_cycles_from init_mstate_def split: sum.splits)
  have "timing_inv seq \<lparr>state = 0, cycle = new_cycle seq, source_files = {}\<rparr>"
    using assms(1) by (auto simp: timing_inv_def)
  from finalized_from_one_event [OF assms(1) this f assms(3)] show ?thesis .
qed

section \<open>The run of \<^verbatim>\<open>analyze_events\<close>\<close>

lemma run_loop_finalized:
  "run_loop L cfg evs m p =
     (case loop_finalized (EVENT_SEQUENCE cfg) evs m of
        Inl e \<Rightarrow> Inl e
      | Inr (m', outs) \<Rightarrow> Inr (m', fold (finalize_cycle L cfg) outs p))"
proof (induction evs arbitrary: m p)
  case Nil
  then show ?case by simp
next
  case (Cons ev evs)
  show ?case
    by (simp add: Cons.IH split: sum.splits prod.splits option.splits)
qed

lemma analyze_events_finalized:
  "analyze_events L cfg p =
     (if events p = [] then Inr p
      else case sort_events (events p) of
        Inl e \<Rightarrow> Inl e
      | Inr sorted_evs \<Rightarrow>
         (case finalized_cycles (EVENT_SEQUENCE cfg) (events p) of
            Inl e \<Rightarrow> Inl e
          | Inr cs \<Rightarrow> Inr (fold (finalize_cycle L cfg) cs (p\<lparr>events := sorted_evs\<rparr>))))"
  by (simp add: analyze_events_def finalized_cycles_def run_loop_finalized
      split: sum.splits prod.splits)

lemma results_finalize_cycle:
  "results (finalize_cycle L cfg cs p) =
     results p @ (case build_record L cfg (fst cs) (snd cs) of
                    Inl e \<Rightarrow> []
                  | Inr r \<Rightarrow> if validate_record L r then [r] else [])"
  by (simp add: finalize_cycle_def split: sum.splits)

lemma results_fold_finalize:
  "\<exists>new. results (fold (finalize_cycle L cfg) cs p) = results p @ new
      \<and> (\<forall>r \<in> set new. \<exists>c \<in> set cs. build_record L cfg (fst c) (snd c) = Inr r)"
proof (induction cs arbitrary: p)
  case Nil
  then show ?case by simp
next
  case (Cons c cs)
  from Cons.IH [of "finalize_cycle L cfg c p"] obtain new where
    n: "results (fold (finalize_cycle L cfg) cs (finalize_cycle L cfg c p))
          = results (finalize_cycle L cfg c p) @ new"
    and b: "\<forall>r \<in> set new. \<exists>c \<in> set cs. build_record L cfg (fst c) (snd c) = Inr r"
    by blast
  show ?case
  proof (intro exI conjI)
    show "results (fold (finalize_cycle L cfg) (c # cs) p)
        = results p @ ((case build_record L cfg (fst c) (snd c) of
                    Inl e \<Rightarrow> []
                  | Inr r \<Rightarrow> if validate_record L r then [r] else []) @ new)"
      using n by (simp add: results_finalize_cycle)
    show "\<forall>r\<in>set ((case build_record L cfg (fst c) (snd c) of
                    Inl e \<Rightarrow> []
                  | Inr r \<Rightarrow> if validate_record L r then [r] else []) @ new).
       \<exists>c\<in>set (c # cs). build_record L cfg (fst c) (snd c) = Inr r"
      using b by (auto split: sum.splits if_splits)
  qed
qed

lemma one_event_frames:
  assumes "map_of c (last (EVENT_SEQUENCE cfg)) = Some (SList [e])"
    and "build_record L cfg c sf = Inr r"
  shows "map_of r ''frames'' = Some (RInt 1)"
  using build_record_frames [OF assms(2)] assms(1)
  by (auto simp: timing_events_def)

lemma sample_events_sorted:
  "sort_events [sample_init 0, sample_execute 1000000 ''100'']
     = Inr [sample_init 0, sample_execute 1000000 ''100'']"
  by (rule sort_events_sorted)
    (simp_all add: has_time_def time_key_def sample_init_def sample_execute_def)

lemma sample_run:
  "analyze_events sample_lib sample_config
     (empty_processor\<lparr>events := [sample_init 0, sample_execute 1000000 ''100'']\<rparr>)
   = Inr \<lparr>events = [sample_init 0, sample_execute 1000000 ''100''],
          results = [[(''SourceFiles'', RStr ''sample.log''), (''StartTime'', RStr ''NA''),
                      (''AvgValue'', RFloat (Finite 100)), (''frames'', RInt 1),
                      (''Duration(s)'', RFloat (Finite 0))]],
          metrics = \<lparr>files_processed = 0, events_parsed = 0, cycles_completed = 1,
                     cycle_errors = 0\<rparr>\<rparr>"
proof -
  have c: "AList.update ''execute'' (SList [sample_execute 1000000 ''100''])
             (AList.update ''init'' (SEvent (sample_init 0)) (new_cycle [''init'', ''execute'']))
           = sample_cycle [sample_execute 1000000 ''100'']"
    by (simp add: new_cycle_init_execute sample_cycle_def)
  have t: "map_of (sample_init 0) ''type'' = Some (EStr ''init'')"
    "map_of (sample_init 0) ''file'' = Some (EStr ''sample.log'')"
    "map_of (sample_execute 1000000 ''100'') ''type'' = Some (EStr ''execute'')"
    "map_of (sample_execute 1000000 ''100'') ''file'' = Some (EStr ''sample.log'')"
    by (simp_all add: sample_init_def sample_execute_def)
  have v: "validate_record sample_lib
        [(''SourceFiles'', RStr ''sample.log''), (''StartTime'', RStr ''NA''),
         (''AvgValue'', RFloat (Finite 100)), (''frames'', RInt 1),
         (''Duration(s)'', RFloat (Finite 0))]"
    by (simp add: validate_record_def sample_lib_def)
  have s: "EVENT_SEQUENCE sample_config = [''init'', ''execute'']"
    by (simp add: sample_config_def)
  show ?thesis
    by (simp add: analyze_events_def sample_events_sorted s init_mstate_def sm_step_def t
        cycle_append_def new_cycle_init_execute empty_processor_def)
      (simp add: finalize_cycle_def c [unfolded new_cycle_init_execute, simplified]
        sample_cycle_def [symmetric] one_event_record v)
qed

text \<open>
  Claim C3. For an event sequence of two or more stages, every cycle that
  \<^verbatim>\<open>analyze_events\<close> finalizes holds exactly one event in the list of its repeating (last)
  stage, and every record the run appends to the results has \<open>frames = 1\<close>.
\<close>

theorem finalized_cycle_one_frame:
  assumes "2 \<le> length (EVENT_SEQUENCE cfg)" and "analyze_events L cfg p = Inr p'"
  shows "\<exists>cs new. finalized_cycles (EVENT_SEQUENCE cfg) (events p) = Inr cs
           \<and> (\<forall>(c, sf) \<in> set cs.
                 \<exists>e. timing_events c (last (EVENT_SEQUENCE cfg)) = SList [e])
           \<and> results p' = results p @ new
           \<and> (\<forall>r \<in> set new. map_of r ''frames'' = Some (RInt 1))"
proof (cases "events p = []")
  case True
  then have "p' = p" using assms(2) by (simp add: analyze_events_def)
  then show ?thesis using True by (simp add: finalized_cycles_def)
next
  case False
  then obtain sorted_evs cs where
    fc: "finalized_cycles (EVENT_SEQUENCE cfg) (events p) = Inr cs"
    and p': "p' = fold (finalize_cycle L cfg) cs (p\<lparr>events := sorted_evs\<rparr>)"
    using assms(2) by (auto simp: analyze_events_finalized split: sum.splits)
  have one: "\<exists>e. map_of c (last (EVENT_SEQUENCE cfg)) = Some (SList [e])"
    if "(c, sf) \<in> set cs" for c sf
    using finalized_cycles_one_event [OF assms(1) fc that] .
  from results_fold_finalize [of L cfg cs "p\<lparr>events := sorted_evs\<rparr>"] obtain new where
    n: "results p' = results p @ new"
    and b: "\<forall>r \<in> set new. \<exists>c \<in> set cs. build_record L cfg (fst c) (snd c) = Inr r"
    using p' by auto
  have "map_of r ''frames'' = Some (RInt 1)" if "r \<in> set new" for r
  proof -
    from b that obtain c where c: "c \<in> set cs" "build_record L cfg (fst c) (snd c) = Inr r"
      by blast
    from one [of "fst c" "snd c"] c(1) obtain e where
      "map_of (fst c) (last (EVENT_SEQUENCE cfg)) = Some (SList [e])" by auto
    from one_event_frames [OF this c(2)] show ?thesis .
  qed
  moreover have "\<forall>(c, sf) \<in> set cs. \<exists>e. timing_events c (last (EVENT_SEQUENCE cfg)) = SList [e]"
    using one by (fastforce simp: timing_events_def)
  ultimately show ?thesis using fc n by blast
qed

theorem finalized_cycle_one_frame_witness:
  "2 \<le> length (EVENT_SEQUENCE sample_config)
   \<and> (\<exists>cs new.
         finalized_cycles (EVENT_SEQUENCE sample_config)
           [sample_init 0, sample_execute 1000000 ''100''] = Inr cs
         \<and> (\<forall>(c, sf) \<in> set cs.
               \<exists>e. timing_events c (last (EVENT_SEQUENCE sample_config)) = SList [e])
         \<and> [[(''SourceFiles'', RStr ''sample.log''), (''StartTime'', RStr ''NA''),
              (''AvgValue'', RFloat (Finite 100)), (''frames'', RInt 1),
              (''Duration(s)'', RFloat (Finite 0))]] = new
         \<and> (\<forall>r \<in> set new. map_of r ''frames'' = Some (RInt 1)))"
proof -
  have l: "2 \<le> length (EVENT_SEQUENCE sample_config)"
    by (simp add: sample_config_def)
  from finalized_cycle_one_frame [OF l sample_run] show ?thesis
    using l by (simp add: empty_processor_def)
qed

section \<open>Out-of-order events\<close>

lemma sm_step_state0:
  assumes "state m1 = 0" and "state m2 = 0" and "seq \<noteq> []"
  shows "(\<exists>e. sm_step seq ev m1 = Inl e \<and> sm_step seq ev m2 = Inl e)
       \<or> (\<exists>m'. sm_step seq ev m1 = Inr (m', None) \<and> sm_step seq ev m2 = Inr (m', None))
       \<or> (\<exists>m1' m2'. sm_step seq ev m1 = Inr (m1', None) \<and> sm_step seq ev m2 = Inr (m2', None)
             \<and> state m1' = 0 \<and> state m2' = 0)"
  using assms
  by (auto simp: sm_step_def split: option.splits evalue.splits)

lemma finalized_from_Nil:
  "finalized_from seq [] m = Inr (if state m = length seq then [(cycle m, source_files m)] else [])"
  by (simp add: finalized_from_def)

lemma finalized_from_Cons:
  "finalized_from seq (ev # evs) m =
     (case sm_step seq ev m of
        Inl e \<Rightarrow> Inl e
      | Inr (m', out) \<Rightarrow>
         (case finalized_from seq evs m' of
            Inl e \<Rightarrow> Inl e
          | Inr cs \<Rightarrow> Inr ((case out of None \<Rightarrow> [] | Some c \<Rightarrow> [c]) @ cs)))"
  by (simp add: finalized_from_def split: sum.splits prod.splits)

lemma finalized_from_state0:
  assumes "seq \<noteq> []"
  shows "state m1 = 0 \<Longrightarrow> state m2 = 0 \<Longrightarrow> finalized_from seq evs m1 = finalized_from seq evs m2"
proof (induction evs arbitrary: m1 m2)
  case Nil
  then show ?case using assms by (simp add: finalized_from_Nil)
next
  case (Cons ev evs)
  from sm_step_state0 [OF Cons.prems assms, of ev] show ?case
  proof (elim disjE exE conjE)
    fix e assume "sm_step seq ev m1 = Inl e" "sm_step seq ev m2 = Inl e"
    then show ?thesis by (simp add: finalized_from_Cons)
  next
    fix m' assume "sm_step seq ev m1 = Inr (m', None)" "sm_step seq ev m2 = Inr (m', None)"
    then show ?thesis by (simp add: finalized_from_Cons)
  next
    fix m1' m2'
    assume s: "sm_step seq ev m1 = Inr (m1', None)" "sm_step seq ev m2 = Inr (m2', None)"
      and z: "state m1' = 0" "state m2' = 0"
    from Cons.IH [OF z] show ?thesis using s by (simp add: finalized_from_Cons)
  qed
qed

lemma finalized_from_append:
  "loop_finalized seq pre m0 = Inr (m, outs) \<Longrightarrow>
   finalized_from seq (pre @ evs) m0 =
     (case finalized_from seq evs m of Inl e \<Rightarrow> Inl e | Inr cs \<Rightarrow> Inr (outs @ cs))"
proof (induction pre arbitrary: m0 outs)
  case Nil
  then show ?case by (simp split: sum.splits)
next
  case (Cons ev pre)
  from Cons.prems obtain m1 out outs1 where
    st: "sm_step seq ev m0 = Inr (m1, out)"
    and lp: "loop_finalized seq pre m1 = Inr (m, outs1)"
    and outs: "outs = (case out of None \<Rightarrow> [] | Some c \<Rightarrow> [c]) @ outs1"
    by (auto split: sum.splits prod.splits)
  show ?case
    using st outs by (simp add: finalized_from_Cons Cons.IH [OF lp] split: sum.splits)
qed

lemma list_index_None:
  "list_index xs x = None \<longleftrightarrow> x \<notin> set xs"
  by (induction xs) auto

lemma sm_step_unknown:
  assumes "map_of ev ''type'' = Some v" and "v \<notin> EStr ` set seq"
  shows "sm_step seq ev m = Inr (m, None)"
proof (cases v)
  case (ETime t)
  then show ?thesis using assms(1) by (simp add: sm_step_def)
next
  case (EStr s)
  then have "list_index seq s = None" using assms(2) by (auto simp: list_index_None)
  then show ?thesis using assms(1) EStr by (simp add: sm_step_def)
qed

lemma loop_finalized_skip:
  assumes "\<And>m. sm_step seq ev m = Inr (m, None)"
  shows "loop_finalized seq (pre @ ev # post) m0 = loop_finalized seq (pre @ post) m0"
proof (induction pre arbitrary: m0)
  case Nil
  show ?case by (simp add: assms split: sum.splits prod.splits)
next
  case (Cons a pre)
  show ?case by (simp add: Cons.IH split: sum.splits prod.splits)
qed

text \<open>
  Claim C7, as amended. When an event arrives whose type is a stage of the sequence but
  neither the first stage nor the stage expected next, the iteration sets the state to 0
  and finalizes nothing, and from there on the machine finalizes exactly the cycles that a
  freshly started machine finalizes on the later events: what was stored in the cycle
  before the anomaly, and the anomalous event itself, reach no later finalized cycle.
  When the type of the event is not a stage of the sequence, the iteration leaves the
  state, the cycle in progress and the source files as they are and finalizes nothing, in
  every state of the machine: the run is the run on the events without that event.
\<close>

theorem out_of_order_event_resets:
  assumes "map_of ev ''type'' = Some v"
  shows "(v \<in> EStr ` set seq \<and> v \<noteq> EStr (hd seq)
          \<and> (state m < length seq \<longrightarrow> v \<noteq> EStr (seq ! state m)) \<longrightarrow>
            sm_step seq ev m = Inr (m\<lparr>state := 0\<rparr>, None)
          \<and> finalized_from seq (ev # post) m
              = finalized_from seq post \<lparr>state = 0, cycle = new_cycle seq, source_files = {}\<rparr>
          \<and> (\<forall>pre m0 outs. loop_finalized seq pre m0 = Inr (m, outs) \<longrightarrow>
                finalized_from seq (pre @ ev # post) m0
                  = (case finalized_from seq post
                            \<lparr>state = 0, cycle = new_cycle seq, source_files = {}\<rparr> of
                       Inl e \<Rightarrow> Inl e
                     | Inr cs \<Rightarrow> Inr (outs @ cs))))
       \<and> (v \<notin> EStr ` set seq \<longrightarrow>
            sm_step seq ev m = Inr (m, None)
          \<and> finalized_from seq (ev # post) m = finalized_from seq post m
          \<and> (\<forall>pre m0. loop_finalized seq (pre @ ev # post) m0
                         = loop_finalized seq (pre @ post) m0
                     \<and> finalized_from seq (pre @ ev # post) m0
                         = finalized_from seq (pre @ post) m0))"
proof (rule conjI; rule impI)
  assume a: "v \<in> EStr ` set seq \<and> v \<noteq> EStr (hd seq)
          \<and> (state m < length seq \<longrightarrow> v \<noteq> EStr (seq ! state m))"
  then obtain ty where v: "v = EStr ty" and mem: "ty \<in> set seq" by auto
  have nhd: "ty \<noteq> hd seq" and nst: "state m < length seq \<longrightarrow> ty \<noteq> seq ! state m"
    using a v by auto
  from list_index_mem [OF mem] obtain idx where idx: "list_index seq ty = Some idx" by blast
  note i = list_index_Some [OF idx]
  have ne: "seq \<noteq> []" using mem by auto
  have i0: "idx \<noteq> 0"
  proof
    assume "idx = 0"
    then have "ty = hd seq" using i ne by (simp add: hd_conv_nth)
    then show False using nhd by simp
  qed
  have ist: "idx \<noteq> state m" using i nst by auto
  have st: "sm_step seq ev m = Inr (m\<lparr>state := 0\<rparr>, None)"
    using assms v idx i0 ist by (simp add: sm_step_def)
  have ff: "finalized_from seq (ev # post) m
           = finalized_from seq post \<lparr>state = 0, cycle = new_cycle seq, source_files = {}\<rparr>"
    using finalized_from_state0 [OF ne, of "m\<lparr>state := 0\<rparr>"
        "\<lparr>state = 0, cycle = new_cycle seq, source_files = {}\<rparr>" post]
    by (simp add: finalized_from_Cons st split: sum.splits)
  show "sm_step seq ev m = Inr (m\<lparr>state := 0\<rparr>, None)
          \<and> finalized_from seq (ev # post) m
              = finalized_from seq post \<lparr>state = 0, cycle = new_cycle seq, source_files = {}\<rparr>
          \<and> (\<forall>pre m0 outs. loop_finalized seq pre m0 = Inr (m, outs) \<longrightarrow>
                finalized_from seq (pre @ ev # post) m0
                  = (case finalized_from seq post
                            \<lparr>state = 0, cycle = new_cycle seq, source_files = {}\<rparr> of
                       Inl e \<Rightarrow> Inl e
                     | Inr cs \<Rightarrow> Inr (outs @ cs)))"
    using st ff by (simp add: finalized_from_append)
next
  assume u: "v \<notin> EStr ` set seq"
  have skip: "sm_step seq ev m' = Inr (m', None)" for m'
    using assms u by (rule sm_step_unknown)
  have lf: "loop_finalized seq (pre @ ev # post) m0 = loop_finalized seq (pre @ post) m0"
    for pre m0
    using skip by (rule loop_finalized_skip)
  have ff: "finalized_from seq (pre @ ev # post) m0 = finalized_from seq (pre @ post) m0"
    for pre m0
    by (simp add: finalized_from_def lf)
  show "sm_step seq ev m = Inr (m, None)
          \<and> finalized_from seq (ev # post) m = finalized_from seq post m
          \<and> (\<forall>pre m0. loop_finalized seq (pre @ ev # post) m0
                         = loop_finalized seq (pre @ post) m0
                     \<and> finalized_from seq (pre @ ev # post) m0
                         = finalized_from seq (pre @ post) m0)"
    using skip [of m] ff [of "[]" m] lf ff by simp
qed

lemma sample_init_step:
  "sm_step [''init'', ''execute''] (sample_init 0)
     \<lparr>state = 0, cycle = new_cycle [''init'', ''execute''], source_files = {}\<rparr>
   = Inr (\<lparr>state = 1, cycle = [(''init'', SEvent (sample_init 0)), (''execute'', SList [])],
           source_files = {EStr ''sample.log''}\<rparr>, None)"
proof -
  have t: "map_of (sample_init 0) ''type'' = Some (EStr ''init'')"
    "map_of (sample_init 0) ''file'' = Some (EStr ''sample.log'')"
    by (simp_all add: sample_init_def)
  show ?thesis
    by (simp add: sm_step_def new_cycle_init_execute t)
qed

theorem out_of_order_event_resets_witness:
  "sm_step [''init'', ''execute''] (sample_init 0)
     \<lparr>state = 0, cycle = new_cycle [''init'', ''execute''], source_files = {}\<rparr>
   = Inr (\<lparr>state = 1, cycle = [(''init'', SEvent (sample_init 0)), (''execute'', SList [])],
           source_files = {EStr ''sample.log''}\<rparr>, None)
   \<and> sm_step [''init'', ''execute''] (sample_execute 1 ''100'')
       \<lparr>state = 2, cycle = sample_cycle [sample_execute 1 ''100''],
         source_files = {EStr ''sample.log''}\<rparr>
     = Inr (\<lparr>state = 0, cycle = sample_cycle [sample_execute 1 ''100''],
             source_files = {EStr ''sample.log''}\<rparr>, None)
   \<and> finalized_from [''init'', ''execute''] [sample_execute 1 ''100'', sample_init 2]
       \<lparr>state = 2, cycle = sample_cycle [sample_execute 1 ''100''],
         source_files = {EStr ''sample.log''}\<rparr>
     = finalized_from [''init'', ''execute''] [sample_init 2]
         \<lparr>state = 0, cycle = new_cycle [''init'', ''execute''], source_files = {}\<rparr>
   \<and> sm_step [''init'', ''execute''] (sample_noise 1)
       \<lparr>state = 2, cycle = sample_cycle [sample_execute 1 ''100''],
         source_files = {EStr ''sample.log''}\<rparr>
     = Inr (\<lparr>state = 2, cycle = sample_cycle [sample_execute 1 ''100''],
             source_files = {EStr ''sample.log''}\<rparr>, None)
   \<and> finalized_from [''init'', ''execute''] [sample_noise 1, sample_execute 2 ''100'']
       \<lparr>state = 2, cycle = sample_cycle [sample_execute 1 ''100''],
         source_files = {EStr ''sample.log''}\<rparr>
     = finalized_from [''init'', ''execute''] [sample_execute 2 ''100'']
         \<lparr>state = 2, cycle = sample_cycle [sample_execute 1 ''100''],
           source_files = {EStr ''sample.log''}\<rparr>"
proof -
  have e: "map_of (sample_execute 1 ''100'') ''type'' = Some (EStr ''execute'')"
    by (simp add: sample_execute_def)
  have n: "map_of (sample_noise 1) ''type'' = Some (EStr ''noise'')"
    by (simp add: sample_noise_def)
  show ?thesis
    using out_of_order_event_resets [OF e, of "[''init'', ''execute'']"
        "\<lparr>state = 2, cycle = sample_cycle [sample_execute 1 ''100''],
           source_files = {EStr ''sample.log''}\<rparr>" "[sample_init 2]"]
      out_of_order_event_resets [OF n, of "[''init'', ''execute'']"
        "\<lparr>state = 2, cycle = sample_cycle [sample_execute 1 ''100''],
           source_files = {EStr ''sample.log''}\<rparr>" "[sample_execute 2 ''100'']"]
      sample_init_step
    by simp
qed

text \<open>
  Claim C7 as stated fails for an event whose type is not a stage at all: it is neither
  the first stage nor the stage expected next, yet the state stays 1, and the \<open>init\<close>
  event stored before it is finalized in a cycle with the later \<open>execute\<close> event.
\<close>

theorem unknown_type_keeps_state_counterexample:
  "map_of (sample_noise 1) ''type'' = Some (EStr ''noise'')
   \<and> ''noise'' \<noteq> hd [''init'', ''execute''] \<and> ''noise'' \<noteq> [''init'', ''execute''] ! 1
   \<and> sm_step [''init'', ''execute''] (sample_noise 1)
       \<lparr>state = 1, cycle = [(''init'', SEvent (sample_init 0)), (''execute'', SList [])],
         source_files = {EStr ''sample.log''}\<rparr>
     = Inr (\<lparr>state = 1, cycle = [(''init'', SEvent (sample_init 0)), (''execute'', SList [])],
             source_files = {EStr ''sample.log''}\<rparr>, None)
   \<and> finalized_cycles [''init'', ''execute'']
       [sample_init 0, sample_noise 1, sample_execute 2 ''100'']
     = Inr [([(''init'', SEvent (sample_init 0)),
              (''execute'', SList [sample_execute 2 ''100''])], {EStr ''sample.log''})]"
proof -
  have s: "sort_events [sample_init 0, sample_noise 1, sample_execute 2 ''100'']
     = Inr [sample_init 0, sample_noise 1, sample_execute 2 ''100'']"
    by (rule sort_events_sorted)
      (simp_all add: has_time_def time_key_def sample_init_def sample_execute_def
        sample_noise_def)
  have t: "map_of (sample_init 0) ''type'' = Some (EStr ''init'')"
    "map_of (sample_init 0) ''file'' = Some (EStr ''sample.log'')"
    "map_of (sample_execute 2 ''100'') ''type'' = Some (EStr ''execute'')"
    "map_of (sample_execute 2 ''100'') ''file'' = Some (EStr ''sample.log'')"
    "map_of (sample_noise 1) ''type'' = Some (EStr ''noise'')"
    by (simp_all add: sample_init_def sample_execute_def sample_noise_def)
  show ?thesis
    by (simp add: finalized_cycles_def s init_mstate_def sm_step_def t cycle_append_def
        new_cycle_init_execute)
qed

text \<open>
  Claim C8 on the sequence of the single stage \<open>init\<close>: after the first event the slot of
  the repeating (last) stage holds that event, not a list; the cycle is finalized as such
  at the end of the input, and building its record raises.
\<close>

theorem single_stage_slot_not_list:
  "loop_finalized [''init''] [sample_init 0]
     \<lparr>state = 0, cycle = new_cycle [''init''], source_files = {}\<rparr>
   = Inr (\<lparr>state = 1, cycle = [(''init'', SEvent (sample_init 0))],
           source_files = {EStr ''sample.log''}\<rparr>, [])
   \<and> finalized_cycles [''init''] [sample_init 0]
     = Inr [([(''init'', SEvent (sample_init 0))], {EStr ''sample.log''})]
   \<and> build_record sample_lib one_stage_config [(''init'', SEvent (sample_init 0))]
       {EStr ''sample.log''} = Inl AttributeError"
proof -
  have t: "map_of (sample_init 0) ''type'' = Some (EStr ''init'')"
    "map_of (sample_init 0) ''file'' = Some (EStr ''sample.log'')"
    "map_of (sample_init 0) ''time'' = Some (ETime 0)"
    by (simp_all add: sample_init_def)
  have n: "new_cycle [''init''] = [(''init'', SList [])]"
    by (simp add: new_cycle_def)
  show ?thesis
    by (simp add: finalized_cycles_def sort_events_def init_mstate_def sm_step_def t n
        one_stage_record)
qed

section \<open>Properties of the time stamp parser\<close>

lemma run_until_bracket:
  assumes "CHR '']'' \<notin> set body"
  shows "takeWhile (\<lambda>x. x \<noteq> CHR '']'') (body @ CHR '']'' # post) = body"
    and "dropWhile (\<lambda>x. x \<noteq> CHR '']'') (body @ CHR '']'' # post) = CHR '']'' # post"
  using assms by (induction body) auto

lemma is_bracketed_Nil:
  "is_bracketed (c # cs) [] body \<longleftrightarrow>
     c = CHR ''['' \<and> takeWhile (\<lambda>x. x \<noteq> CHR '']'') cs = body \<and> body \<noteq> []
     \<and> dropWhile (\<lambda>x. x \<noteq> CHR '']'') cs \<noteq> []"
proof
  assume "is_bracketed (c # cs) [] body"
  then show "c = CHR ''['' \<and> takeWhile (\<lambda>x. x \<noteq> CHR '']'') cs = body \<and> body \<noteq> []
     \<and> dropWhile (\<lambda>x. x \<noteq> CHR '']'') cs \<noteq> []"
    by (auto simp: is_bracketed_def run_until_bracket)
next
  assume a: "c = CHR ''['' \<and> takeWhile (\<lambda>x. x \<noteq> CHR '']'') cs = body \<and> body \<noteq> []
     \<and> dropWhile (\<lambda>x. x \<noteq> CHR '']'') cs \<noteq> []"
  let ?d = "dropWhile (\<lambda>x. x \<noteq> CHR '']'') cs"
  have "hd ?d = CHR '']''" using a hd_dropWhile [of "\<lambda>x. x \<noteq> CHR '']''" cs] by auto
  then have d: "?d = CHR '']'' # tl ?d" using a by (cases ?d) auto
  have "cs = body @ ?d" using a takeWhile_dropWhile_id [of "\<lambda>x. x \<noteq> CHR '']''" cs] by auto
  then have "c # cs = [] @ CHR ''['' # body @ CHR '']'' # tl ?d" using a d by simp
  moreover have "CHR '']'' \<notin> set body" using a by (auto dest: set_takeWhileD)
  ultimately show "is_bracketed (c # cs) [] body"
    using a unfolding is_bracketed_def by blast
qed

lemma is_bracketed_Cons:
  "is_bracketed (c # cs) (d # pre) body \<longleftrightarrow> c = d \<and> is_bracketed cs pre body"
  by (auto simp: is_bracketed_def)

lemma is_bracketed_empty [simp]: "\<not> is_bracketed [] pre body"
  by (simp add: is_bracketed_def)

lemma find_bracket_first:
  "find_bracket line = Some body \<Longrightarrow> first_bracketed line body"
proof (induction line)
  case Nil
  then show ?case by simp
next
  case (Cons c cs)
  show ?case
  proof (cases "\<exists>b. is_bracketed (c # cs) [] b")
    case True
    then obtain b where b: "is_bracketed (c # cs) [] b" by blast
    then have "find_bracket (c # cs) = Some b" by (simp add: is_bracketed_Nil)
    then have "b = body" using Cons.prems by simp
    then show ?thesis using b unfolding first_bracketed_def by (intro exI [of _ "[]"]) simp
  next
    case False
    then have "find_bracket (c # cs) = find_bracket cs"
      by (auto simp: is_bracketed_Nil)
    then have "first_bracketed cs body" using Cons by simp
    then obtain pre where pre: "is_bracketed cs pre body"
      and least: "\<forall>pre' body'. is_bracketed cs pre' body' \<longrightarrow> length pre \<le> length pre'"
      unfolding first_bracketed_def by blast
    have "length (c # pre) \<le> length pre'" if "is_bracketed (c # cs) pre' body'" for pre' body'
    proof (cases pre')
      case Nil
      then show ?thesis using that False by blast
    next
      case (Cons d pre'')
      then have "is_bracketed cs pre'' body'" using that by (simp add: is_bracketed_Cons)
      then show ?thesis using least Cons by auto
    qed
    moreover have "is_bracketed (c # cs) (c # pre) body"
      using pre by (simp add: is_bracketed_Cons)
    ultimately show ?thesis unfolding first_bracketed_def by blast
  qed
qed

lemma find_bracket_exists:
  "is_bracketed line pre body \<Longrightarrow> find_bracket line \<noteq> None"
proof (induction pre arbitrary: line)
  case Nil
  then show ?case by (cases line) (auto simp: is_bracketed_Nil)
next
  case (Cons d pre)
  then show ?case by (cases line) (auto simp: is_bracketed_Cons)
qed

lemma is_bracketed_unique:
  assumes "is_bracketed line pre body" and "is_bracketed line pre' body'"
    and "length pre = length pre'"
  shows "body = body'"
  using assms
proof (induction pre arbitrary: line pre')
  case Nil
  then show ?case by (cases line) (auto simp: is_bracketed_Nil)
next
  case (Cons d pre)
  then obtain d' pre'' where p: "pre' = d' # pre''" by (cases pre') auto
  from Cons.prems p show ?case
    by (cases line) (auto simp: is_bracketed_Cons dest: Cons.IH)
qed

lemma first_bracketed_unique:
  assumes "first_bracketed line body" and "first_bracketed line body'"
  shows "body = body'"
proof -
  from assms obtain pre pre' where
    a: "is_bracketed line pre body" "\<forall>p b. is_bracketed line p b \<longrightarrow> length pre \<le> length p"
    and b: "is_bracketed line pre' body'" "\<forall>p b. is_bracketed line p b \<longrightarrow> length pre' \<le> length p"
    unfolding first_bracketed_def by blast
  have "length pre = length pre'" using a b by (meson le_antisym)
  from is_bracketed_unique [OF a(1) b(1) this] show ?thesis .
qed

lemma find_bracket_iff:
  "find_bracket line = Some body \<longleftrightarrow> first_bracketed line body"
proof
  assume "find_bracket line = Some body"
  then show "first_bracketed line body" by (rule find_bracket_first)
next
  assume f: "first_bracketed line body"
  then obtain pre where "is_bracketed line pre body" unfolding first_bracketed_def by blast
  from find_bracket_exists [OF this] obtain b where b: "find_bracket line = Some b" by auto
  from first_bracketed_unique [OF f find_bracket_first [OF b]] b
  show "find_bracket line = Some body" by simp
qed

lemma find_bracket_None_iff:
  "find_bracket line = None \<longleftrightarrow> (\<forall>pre body. \<not> is_bracketed line pre body)"
proof
  assume "find_bracket line = None"
  then show "\<forall>pre body. \<not> is_bracketed line pre body"
    using find_bracket_exists by blast
next
  assume a: "\<forall>pre body. \<not> is_bracketed line pre body"
  show "find_bracket line = None"
  proof (rule ccontr)
    assume "find_bracket line \<noteq> None"
    then obtain b where "find_bracket line = Some b" by auto
    from find_bracket_first [OF this] a show False unfolding first_bracketed_def by blast
  qed
qed

lemma first_parse_at:
  "i < length fmts \<Longrightarrow> \<forall>j < i. strptime L s (fmts ! j) = Inl ValueError \<Longrightarrow>
   strptime L s (fmts ! i) \<noteq> Inl ValueError \<Longrightarrow>
   first_parse L s fmts
     = (case strptime L s (fmts ! i) of Inr t \<Rightarrow> Inr (Some t) | Inl e \<Rightarrow> Inl e)"
proof (induction fmts arbitrary: i)
  case Nil
  then show ?case by simp
next
  case (Cons fmt fmts)
  show ?case
  proof (cases i)
    case 0
    then show ?thesis using Cons.prems by (simp split: sum.splits)
  next
    case (Suc i')
    have v: "strptime L s fmt = Inl ValueError" using Cons.prems(2) Suc by auto
    have "\<forall>j < i'. strptime L s (fmts ! j) = Inl ValueError"
      using Cons.prems(2) Suc by (metis Suc_less_eq nth_Cons_Suc)
    from Cons.IH [OF _ this] Cons.prems Suc v show ?thesis by simp
  qed
qed

lemma first_parse_cases:
  "(first_parse L s fmts = Inr None \<and> (\<forall>fmt \<in> set fmts. strptime L s fmt = Inl ValueError))
   \<or> (\<exists>i < length fmts. strptime L s (fmts ! i) \<noteq> Inl ValueError
         \<and> (\<forall>j < i. strptime L s (fmts ! j) = Inl ValueError)
         \<and> first_parse L s fmts
             = (case strptime L s (fmts ! i) of Inr t \<Rightarrow> Inr (Some t) | Inl e \<Rightarrow> Inl e))"
proof (induction fmts)
  case Nil
  show ?case by simp
next
  case (Cons fmt fmts)
  show ?case
  proof (cases "strptime L s fmt = Inl ValueError")
    case True
    from Cons.IH show ?thesis
    proof (elim disjE exE conjE)
      assume "first_parse L s fmts = Inr None"
        "\<forall>fmt \<in> set fmts. strptime L s fmt = Inl ValueError"
      then show ?thesis using True by simp
    next
      fix i
      assume i: "i < length fmts" "strptime L s (fmts ! i) \<noteq> Inl ValueError"
        "\<forall>j < i. strptime L s (fmts ! j) = Inl ValueError"
        "first_parse L s fmts
           = (case strptime L s (fmts ! i) of Inr t \<Rightarrow> Inr (Some t) | Inl e \<Rightarrow> Inl e)"
      have "\<forall>j < Suc i. strptime L s ((fmt # fmts) ! j) = Inl ValueError"
        using i(3) True by (auto simp: nth_Cons split: nat.splits)
      then show ?thesis using i True by (intro disjI2 exI [of _ "Suc i"]) simp
    qed
  next
    case False
    then show ?thesis by (intro disjI2 exI [of _ 0]) (auto split: sum.splits)
  qed
qed

lemma first_parse_Some_iff:
  "first_parse L s fmts = Inr (Some t) \<longleftrightarrow>
     (\<exists>i < length fmts. strptime L s (fmts ! i) = Inr t
        \<and> (\<forall>j < i. strptime L s (fmts ! j) = Inl ValueError))" (is "?l \<longleftrightarrow> ?r")
proof
  assume l: ?l
  with first_parse_cases [of L s fmts] obtain i where i: "i < length fmts"
    "\<forall>j < i. strptime L s (fmts ! j) = Inl ValueError"
    "(case strptime L s (fmts ! i) of Inr t \<Rightarrow> Inr (Some t) | Inl e \<Rightarrow> Inl e) = Inr (Some t)"
    by auto
  from i(3) have "strptime L s (fmts ! i) = Inr t" by (simp split: sum.splits)
  with i show ?r by blast
next
  assume ?r
  then obtain i where i: "i < length fmts" "strptime L s (fmts ! i) = Inr t"
    "\<forall>j < i. strptime L s (fmts ! j) = Inl ValueError" by blast
  from first_parse_at [OF i(1) i(3)] i(2) show ?l by simp
qed

lemma first_parse_None_iff:
  "first_parse L s fmts = Inr None \<longleftrightarrow> (\<forall>fmt \<in> set fmts. strptime L s fmt = Inl ValueError)"
  by (induction fmts) (auto split: sum.splits)

lemma first_parse_Inl_iff:
  "first_parse L s fmts = Inl e \<longleftrightarrow>
     e \<noteq> ValueError
     \<and> (\<exists>i < length fmts. strptime L s (fmts ! i) = Inl e
          \<and> (\<forall>j < i. strptime L s (fmts ! j) = Inl ValueError))" (is "?l \<longleftrightarrow> ?r")
proof
  assume l: ?l
  with first_parse_cases [of L s fmts] obtain i where i: "i < length fmts"
    "strptime L s (fmts ! i) \<noteq> Inl ValueError"
    "\<forall>j < i. strptime L s (fmts ! j) = Inl ValueError"
    "(case strptime L s (fmts ! i) of Inr t \<Rightarrow> Inr (Some t) | Inl e \<Rightarrow> Inl e) = Inl e"
    by auto
  from i(4) have s: "strptime L s (fmts ! i) = Inl e" by (simp split: sum.splits)
  with i(2) have "e \<noteq> ValueError" by auto
  with i s show ?r by blast
next
  assume r: ?r
  then obtain i where i: "i < length fmts" "strptime L s (fmts ! i) = Inl e"
    "\<forall>j < i. strptime L s (fmts ! j) = Inl ValueError" by blast
  from r have "strptime L s (fmts ! i) \<noteq> Inl ValueError" using i(2) by simp
  from first_parse_at [OF i(1) i(3) this] i(2) show ?l by simp
qed

text \<open>
  Claim C10, as amended. A line without a bracketed substring has no time stamp.
  Otherwise the line has a first bracketed substring, and the formats are tried on its
  text from left to right, going on after each format that fails with \<^verbatim>\<open>ValueError\<close>:
  the parser returns the parse of the first format that succeeds, and no time stamp when
  every format fails with \<^verbatim>\<open>ValueError\<close>; it raises exactly when the first format that
  does not fail with \<^verbatim>\<open>ValueError\<close> raises another exception, and then it raises that
  one. A line without a time stamp yields no event: \<^verbatim>\<open>parse_line\<close> leaves the processor
  unchanged; an exception of the parser leaves \<^verbatim>\<open>parse_line\<close> as well.
\<close>

theorem extract_timestamp_first_bracket:
  "((\<forall>pre body. \<not> is_bracketed line pre body) \<longrightarrow> extract_timestamp L cfg line = Inr None)
   \<and> ((\<exists>pre body. is_bracketed line pre body) \<longrightarrow> (\<exists>body. first_bracketed line body))
   \<and> (\<forall>body. first_bracketed line body \<longrightarrow>
        (\<forall>t. extract_timestamp L cfg line = Inr (Some t) \<longleftrightarrow>
               (\<exists>i < length (TIMESTAMP_FORMATS cfg).
                   strptime L body (TIMESTAMP_FORMATS cfg ! i) = Inr t
                   \<and> (\<forall>j < i. strptime L body (TIMESTAMP_FORMATS cfg ! j) = Inl ValueError)))
        \<and> (extract_timestamp L cfg line = Inr None \<longleftrightarrow>
               (\<forall>fmt \<in> set (TIMESTAMP_FORMATS cfg). strptime L body fmt = Inl ValueError))
        \<and> (\<forall>e. extract_timestamp L cfg line = Inl e \<longleftrightarrow>
               e \<noteq> ValueError
               \<and> (\<exists>i < length (TIMESTAMP_FORMATS cfg).
                   strptime L body (TIMESTAMP_FORMATS cfg ! i) = Inl e
                   \<and> (\<forall>j < i. strptime L body (TIMESTAMP_FORMATS cfg ! j) = Inl ValueError))))
   \<and> (extract_timestamp L cfg line = Inr None \<longrightarrow> parse_line L cfg line filename p = Inr p)
   \<and> (\<forall>e. extract_timestamp L cfg line = Inl e \<longrightarrow> parse_line L cfg line filename p = Inl e)"
proof (intro conjI allI impI)
  assume "\<forall>pre body. \<not> is_bracketed line pre body"
  then have "find_bracket line = None" by (simp add: find_bracket_None_iff)
  then show "extract_timestamp L cfg line = Inr None" by (simp add: extract_timestamp_def)
next
  assume "\<exists>pre body. is_bracketed line pre body"
  then have "find_bracket line \<noteq> None" by (simp add: find_bracket_None_iff)
  then show "\<exists>body. first_bracketed line body" by (auto simp: find_bracket_iff [symmetric])
next
  fix body t
  assume "first_bracketed line body"
  then have f: "find_bracket line = Some body" by (simp add: find_bracket_iff)
  show "extract_timestamp L cfg line = Inr (Some t) \<longleftrightarrow>
               (\<exists>i < length (TIMESTAMP_FORMATS cfg).
                   strptime L body (TIMESTAMP_FORMATS cfg ! i) = Inr t
                   \<and> (\<forall>j < i. strptime L body (TIMESTAMP_FORMATS cfg ! j) = Inl ValueError))"
    by (simp add: extract_timestamp_def f first_parse_Some_iff)
next
  fix body
  assume "first_bracketed line body"
  then have f: "find_bracket line = Some body" by (simp add: find_bracket_iff)
  show "extract_timestamp L cfg line = Inr None \<longleftrightarrow>
               (\<forall>fmt \<in> set (TIMESTAMP_FORMATS cfg). strptime L body fmt = Inl ValueError)"
    by (simp add: extract_timestamp_def f first_parse_None_iff)
next
  fix body e
  assume "first_bracketed line body"
  then have f: "find_bracket line = Some body" by (simp add: find_bracket_iff)
  show "extract_timestamp L cfg line = Inl e \<longleftrightarrow>
               e \<noteq> ValueError
               \<and> (\<exists>i < length (TIMESTAMP_FORMATS cfg).
                   strptime L body (TIMESTAMP_FORMATS cfg ! i) = Inl e
                   \<and> (\<forall>j < i. strptime L body (TIMESTAMP_FORMATS cfg ! j) = Inl ValueError))"
    by (simp add: extract_timestamp_def f first_parse_Inl_iff)
next
  assume "extract_timestamp L cfg line = Inr None"
  then show "parse_line L cfg line filename p = Inr p" by (simp add: parse_line_def)
next
  fix e
  assume "extract_timestamp L cfg line = Inl e"
  then show "parse_line L cfg line filename p = Inl e" by (simp add: parse_line_def)
qed

theorem extract_timestamp_first_bracket_witness:
  "first_bracketed ''see [] then [2025/07/09 00:00:00.000] [x] Step=1'' ''2025/07/09 00:00:00.000''
   \<and> extract_timestamp sample_lib sample_config
        ''see [] then [2025/07/09 00:00:00.000] [x] Step=1'' = Inr (Some 0)
   \<and> extract_timestamp sample_lib sample_config ''Step=1'' = Inr None"
proof -
  have fb: "first_bracketed ''see [] then [2025/07/09 00:00:00.000] [x] Step=1''
              ''2025/07/09 00:00:00.000''"
    by (simp add: find_bracket_iff [symmetric])
  have nb: "\<forall>pre body. \<not> is_bracketed ''Step=1'' pre body"
    by (simp add: find_bracket_None_iff [symmetric])
  have s: "strptime sample_lib ''2025/07/09 00:00:00.000'' (TIMESTAMP_FORMATS sample_config ! 0)
             = Inr 0"
    "length (TIMESTAMP_FORMATS sample_config) = 1"
    by (simp_all add: sample_lib_def sample_config_def sample_strptime_def)
  have "\<exists>i<length (TIMESTAMP_FORMATS sample_config).
           strptime sample_lib ''2025/07/09 00:00:00.000'' (TIMESTAMP_FORMATS sample_config ! i)
             = Inr 0
           \<and> (\<forall>j<i. strptime sample_lib ''2025/07/09 00:00:00.000''
                        (TIMESTAMP_FORMATS sample_config ! j) = Inl ValueError)"
    using s by (intro exI [of _ 0]) simp
  then have t: "extract_timestamp sample_lib sample_config
        ''see [] then [2025/07/09 00:00:00.000] [x] Step=1'' = Inr (Some 0)"
    by (rule extract_timestamp_first_bracket
        [of "''see [] then [2025/07/09 00:00:00.000] [x] Step=1''" sample_lib sample_config
          "''sample.log''" empty_processor,
          THEN conjunct2, THEN conjunct2, THEN conjunct1, THEN spec, THEN mp, OF fb,
          THEN conjunct1, THEN spec, THEN iffD2])
  have n: "extract_timestamp sample_lib sample_config ''Step=1'' = Inr None"
    by (rule extract_timestamp_first_bracket
        [of "''Step=1''" sample_lib sample_config "''sample.log''" empty_processor,
          THEN conjunct1, THEN mp, OF nb])
  from fb t n show ?thesis by (intro conjI)
qed

text \<open>
  Claim C10 as stated fails for a list of formats whose first format repeats a directive:
  \<^verbatim>\<open>datetime.strptime\<close> raises \<^verbatim>\<open>re.error\<close> on it, which is not a \<^verbatim>\<open>ValueError\<close>, so the
  parser raises on a line with a bracketed text instead of returning the parse of the
  second format, which succeeds; the exception leaves \<^verbatim>\<open>parse_line\<close> too.
\<close>

theorem repeated_directive_raises_counterexample:
  "first_bracketed ''[2025/07/09 00:00:00.000] Step=1'' ''2025/07/09 00:00:00.000''
   \<and> TIMESTAMP_FORMATS repeated_directive_config = [''%Y %Y'', ''%Y/%m/%d %H:%M:%S.%f'']
   \<and> strptime sample_lib ''2025/07/09 00:00:00.000'' ''%Y/%m/%d %H:%M:%S.%f'' = Inr 0
   \<and> extract_timestamp sample_lib repeated_directive_config
        ''[2025/07/09 00:00:00.000] Step=1'' = Inl ReError
   \<and> parse_line sample_lib repeated_directive_config
        ''[2025/07/09 00:00:00.000] Step=1'' ''sample.log'' empty_processor = Inl ReError"
proof -
  have fb: "first_bracketed ''[2025/07/09 00:00:00.000] Step=1'' ''2025/07/09 00:00:00.000''"
    by (simp add: find_bracket_iff [symmetric])
  have e: "extract_timestamp sample_lib repeated_directive_config
        ''[2025/07/09 00:00:00.000] Step=1'' = Inl ReError"
    by (simp add: extract_timestamp_def repeated_directive_config_def sample_lib_def
        sample_strptime_def)
  have f: "TIMESTAMP_FORMATS repeated_directive_config = [''%Y %Y'', ''%Y/%m/%d %H:%M:%S.%f'']"
    by (simp add: repeated_directive_config_def)
  have s: "strptime sample_lib ''2025/07/09 00:00:00.000'' ''%Y/%m/%d %H:%M:%S.%f'' = Inr 0"
    by (simp add: sample_lib_def sample_strptime_def)
  have p: "parse_line sample_lib repeated_directive_config
        ''[2025/07/09 00:00:00.000] Step=1'' ''sample.log'' empty_processor = Inl ReError"
    by (simp add: parse_line_def e)
  from fb f s e p show ?thesis by (intro conjI)
qed

section \<open>Properties of the event extractor\<close>


lemma matched_fields_Nil [simp]: "matched_fields L line [] = []"
  by (simp add: matched_fields_def List.map_filter_def)










end
